theory Spec2Isabelle
  imports Complex_Main
begin

section \<open>Python floats\<close>

text \<open>
  Every number of \<^verbatim>\<open>Drone.py\<close> that is not a counter is a Python \<^verbatim>\<open>float\<close>, an IEEE 754
  binary64 value.  A finite float is modelled by the rational number it denotes, and every
  arithmetic operation computes the exact result and rounds it to the nearest float, ties
  to the even significand (\<open>rnd\<close>).  The small integers the code mixes in (\<^verbatim>\<open>0\<close>, \<^verbatim>\<open>2\<close>,
  \<^verbatim>\<open>360\<close>, \<^verbatim>\<open>-1\<close>) are floats themselves, so integer and float operands need no separate
  treatment.  Two things are left out: the sign of zero (it never influences a comparison
  or a printed field here) and overflow to infinity (results of magnitude \<open>2 ^ 1024\<close> and
  above).
\<close>

fun bit_length :: "nat \<Rightarrow> nat" where
  "bit_length n = (if n = 0 then 0 else Suc (bit_length (n div 2)))"

declare bit_length.simps [simp del]

text \<open>\<open>ilog2 x\<close> is the binary exponent of \<open>x \<noteq> 0\<close>: \<open>2 powi ilog2 x \<le> \<bar>x\<bar> < 2 powi (ilog2 x + 1)\<close>.\<close>

definition ilog2 :: "rat \<Rightarrow> int" where
  "ilog2 x = (if 1 \<le> \<bar>x\<bar> then int (bit_length (nat \<lfloor>\<bar>x\<bar>\<rfloor>)) - 1
              else - int (bit_length (nat (\<lceil>1 / \<bar>x\<bar>\<rceil> - 1))))"

text \<open>
  The exponent of the unit in the last place of the floats around \<open>x\<close>: 53 significant
  bits, and never finer than the subnormal spacing \<open>2 powi - 1074\<close>.
\<close>

definition quantum :: "rat \<Rightarrow> int" where
  "quantum x = max (ilog2 x - 52) (- 1074)"

text \<open>Rounding to the nearest integer, a tie to the even one; also Python's \<^verbatim>\<open>round(x)\<close>.\<close>

definition round_half_even :: "rat \<Rightarrow> int" where
  "round_half_even q =
     (let f = \<lfloor>q\<rfloor>; r = q - of_int f
      in if r < 1 / 2 then f else if 1 / 2 < r then f + 1 else if even f then f else f + 1)"

definition rnd :: "rat \<Rightarrow> rat" where
  "rnd x = (if x = 0 then 0
            else of_int (round_half_even (x / 2 powi quantum x)) * 2 powi quantum x)"

definition fadd :: "rat \<Rightarrow> rat \<Rightarrow> rat" where
  "fadd a b = rnd (a + b)"

definition fsub :: "rat \<Rightarrow> rat \<Rightarrow> rat" where
  "fsub a b = rnd (a - b)"

definition fmul :: "rat \<Rightarrow> rat \<Rightarrow> rat" where
  "fmul a b = rnd (a * b)"

definition fdiv :: "rat \<Rightarrow> rat \<Rightarrow> rat" where
  "fdiv a b = rnd (a / b)"

text \<open>
  Python's \<^verbatim>\<open>a % b\<close> on floats, for a positive \<open>b\<close>: the result takes the sign of \<open>b\<close>.
  For \<open>0 \<le> a\<close> it is C's \<^verbatim>\<open>fmod\<close>, which is exact.
\<close>

definition py_mod :: "rat \<Rightarrow> rat \<Rightarrow> rat" where
  "py_mod a b = rnd (a - b * of_int \<lfloor>a / b\<rfloor>)"

text \<open>Python's \<^verbatim>\<open>int(x)\<close> truncates towards zero.\<close>

definition py_int :: "rat \<Rightarrow> int" where
  "py_int x = (if 0 \<le> x then \<lfloor>x\<rfloor> else \<lceil>x\<rceil>)"

text \<open>
  The functions of Python's \<^verbatim>\<open>math\<close> module that \<^verbatim>\<open>calc_x\<close> and \<^verbatim>\<open>calc_y\<close> call belong to the
  C library, not to this repository, and no claim depends on their values: they are a
  parameter of the model.
\<close>

record math_module =
  math_cos :: "rat \<Rightarrow> rat"
  math_sin :: "rat \<Rightarrow> rat"
  math_radians :: "rat \<Rightarrow> rat"

section \<open>The collaborators of the drone\<close>

datatype error = IndexError

type_synonym color = "nat \<times> nat \<times> nat"

text \<open>
  The maze is a pygame surface: \<^verbatim>\<open>get_at\<close> answers for the pixels of the surface and raises
  \<^verbatim>\<open>IndexError\<close> for every other position.
\<close>

record surface =
  width :: int
  height :: int
  pixel :: "int \<times> int \<Rightarrow> color"

definition get_at :: "surface \<Rightarrow> int \<times> int \<Rightarrow> error + color" where
  "get_at m p =
     (if 0 \<le> fst p \<and> fst p < width m \<and> 0 \<le> snd p \<and> snd p < height m
      then Inr (pixel m p) else Inl IndexError)"

text \<open>
  The screen records what the drone draws on it: the circles of \<^verbatim>\<open>draw_bounds\<close>, each with
  its colour, centre and radius.
\<close>

type_synonym display = "(color \<times> (int \<times> int) \<times> int) list"

text \<open>
  Modelled from the spec: the enumeration \<^verbatim>\<open>DroneState\<close> (module \<^verbatim>\<open>DroneState\<close>, not among
  the sources), with the three lifecycle states of section 4.3.
\<close>

datatype DroneState = GROUND | TAKE_OFF | LAND

text \<open>
  \<^verbatim>\<open>__init__\<close> stores the class \<^verbatim>\<open>DroneState\<close> itself in \<^verbatim>\<open>self.state\<close>; \<^verbatim>\<open>handle_keys\<close> later
  stores members of it there.  The field therefore holds either the class or a member.
\<close>

datatype state_obj = DroneState_class | Member DroneState

text \<open>
  Modelled from the spec: the class \<^verbatim>\<open>Lidar\<close> is not among the sources.  Section 3 gives a
  sensor a relative angle, a mount position and a maximal range.
\<close>

record lidar =
  relative_angle :: rat
  mount_position :: "int \<times> int"
  max_range :: rat

text \<open>Modelled from the spec: \<^verbatim>\<open>add_angle(delta)\<close> is \<^verbatim>\<open>relative_angle += delta\<close> (section 4.1).\<close>

definition add_angle :: "rat \<Rightarrow> lidar \<Rightarrow> lidar" where
  "add_angle delta l = l\<lparr>relative_angle := fadd (relative_angle l) delta\<rparr>"

text \<open>Modelled from the spec: \<^verbatim>\<open>move(new_position)\<close> sets the mount position (section 4.1).\<close>

definition lidar_move :: "int \<times> int \<Rightarrow> lidar \<Rightarrow> lidar" where
  "lidar_move coordinate l = l\<lparr>mount_position := coordinate\<rparr>"

text \<open>
  \<^verbatim>\<open>Lidar.check_bounds(maze)\<close> reports the coordinate of the boundary pixel its ray meets, or
  that there is none; by section 4.1 it does not change the sensor.  The spec leaves the
  ray arithmetic open, so the function is a parameter \<open>sense\<close> of the model.
  \<^verbatim>\<open>Lidar.draw\<close> only renders and is left out.
\<close>

type_synonym sensing = "surface \<Rightarrow> lidar \<Rightarrow> (int \<times> int) option"

section \<open>The drone\<close>

record drone =
  state :: state_obj
  yaw :: rat
  mode :: DroneState
  speed :: rat
  time_in_air :: rat
  error_case :: int
  score :: int
  radius :: rat
  x_position :: rat
  y_position :: rat
  lidars :: "lidar list"
  color :: color
  bounds_color :: color

definition MAX_FLIGHT_TIME :: rat where
  "MAX_FLIGHT_TIME = 60 * 5"

definition init :: "rat \<Rightarrow> rat \<Rightarrow> color \<Rightarrow> color \<Rightarrow> lidar list \<Rightarrow> drone" where
  "init start_x start_y col bcol ls =
     \<lparr>state = DroneState_class, yaw = 0, mode = GROUND, speed = 0,
      time_in_air = MAX_FLIGHT_TIME, error_case = 0, score = 0, radius = 3,
      x_position = start_x, y_position = start_y, lidars = ls,
      color = col, bounds_color = bcol\<rparr>"

definition get_position :: "drone \<Rightarrow> int \<times> int" where
  "get_position d = (round_half_even (x_position d), round_half_even (y_position d))"

definition draw_bounds :: "drone \<Rightarrow> display \<Rightarrow> int \<times> int \<Rightarrow> display" where
  "draw_bounds d game_display coordination = game_display @ [(bounds_color d, coordination, 3)]"

text \<open>
  \<^verbatim>\<open>check_bounds\<close>: one marker per sensor that reports a hit, then the sample at the drone's
  own truncated position.  It returns \<^verbatim>\<open>False\<close> on every path that returns.
\<close>

definition check_bounds ::
  "sensing \<Rightarrow> surface \<Rightarrow> display \<Rightarrow> drone \<Rightarrow> error + (bool \<times> drone \<times> display)" where
  "check_bounds sense maze game_display d =
     (let g = foldl (\<lambda>g l. case sense maze l of
                               Some lidar_info \<Rightarrow> draw_bounds d g lidar_info
                             | None \<Rightarrow> g) game_display (lidars d)
      in case get_at maze (py_int (x_position d), py_int (y_position d)) of
           Inl e \<Rightarrow> Inl e
         | Inr c \<Rightarrow>
             Inr (False,
                  if c = bounds_color d then d\<lparr>error_case := error_case d + 1\<rparr> else d,
                  g))"

definition rotate ::
  "sensing \<Rightarrow> surface \<Rightarrow> rat \<Rightarrow> display \<Rightarrow> drone \<Rightarrow> error + (drone \<times> display)" where
  "rotate sense maze direction game_display d =
     (let y = fadd (yaw d) (fmul direction (speed d));
          d1 = d\<lparr>yaw := if 360 \<le> y then py_mod y 360
                         else if y < 0 then fadd 360 y else y\<rparr>;
          d2 = d1\<lparr>lidars := map (add_angle (fmul direction (speed d1))) (lidars d1)\<rparr>
      in case check_bounds sense maze game_display d2 of
           Inl e \<Rightarrow> Inl e
         | Inr (b, d3, g) \<Rightarrow> Inr (d3, g))"

definition change_lidars_positions :: "drone \<Rightarrow> drone" where
  "change_lidars_positions d = d\<lparr>lidars := map (lidar_move (get_position d)) (lidars d)\<rparr>"

definition calc_x :: "math_module \<Rightarrow> drone \<Rightarrow> rat" where
  "calc_x m d = fmul (math_cos m (math_radians m (yaw d))) (radius d)"

definition calc_y :: "math_module \<Rightarrow> drone \<Rightarrow> rat" where
  "calc_y m d = fmul (math_sin m (math_radians m (yaw d))) (radius d)"

definition is_crashed :: "surface \<Rightarrow> drone \<Rightarrow> error + (bool \<times> drone)" where
  "is_crashed maze d =
     (case get_at maze (get_position d) of
        Inl e \<Rightarrow> Inl e
      | Inr c \<Rightarrow>
          if c = bounds_color d then Inr (True, d\<lparr>error_case := error_case d + 1\<rparr>)
          else Inr (False, d))"

definition move :: "math_module \<Rightarrow> surface \<Rightarrow> drone \<Rightarrow> error + drone" where
  "move m maze d =
     (let d1 = d\<lparr>x_position := fadd (x_position d) (fmul (speed d) (calc_x m d))\<rparr>;
          d2 = d1\<lparr>y_position := fadd (y_position d1) (fmul (speed d1) (calc_y m d1))\<rparr>;
          d3 = change_lidars_positions d2
      in case is_crashed maze d3 of
           Inl e \<Rightarrow> Inl e
         | Inr (b, d4) \<Rightarrow> Inr d4)"

text \<open>The literal \<^verbatim>\<open>0.2\<close> is the float nearest to one fifth.\<close>

definition forward :: "rat \<Rightarrow> drone \<Rightarrow> drone" where
  "forward acc d =
     (let n_speed = fadd (speed d) (fmul (rnd (2 / 10)) acc)
      in d\<lparr>speed := if n_speed < 2 then n_speed else 2\<rparr>)"

definition backward :: "rat \<Rightarrow> drone \<Rightarrow> drone" where
  "backward acc d =
     (let n_speed = fsub (speed d) (fmul (rnd (2 / 10)) acc)
      in d\<lparr>speed := if 0 < n_speed then n_speed else rnd (2 / 10)\<rparr>)"

text \<open>The pressed-key table, read at the four arrow keys.\<close>

record keys =
  K_LEFT :: bool
  K_RIGHT :: bool
  K_UP :: bool
  K_DOWN :: bool

text \<open>
  \<^verbatim>\<open>handle_keys\<close>.  The conditional expression binds weaker than \<^verbatim>\<open>-=\<close>'s right-hand side:
  a positive budget loses \<^verbatim>\<open>1 / 25\<close>, any other budget loses itself.
\<close>

definition handle_keys ::
  "math_module \<Rightarrow> sensing \<Rightarrow> surface \<Rightarrow> display \<Rightarrow> keys \<Rightarrow> drone
     \<Rightarrow> error + (bool \<times> drone \<times> display)" where
  "handle_keys m sense maze game_display key d =
     (let d1 = (if state d = Member LAND then d\<lparr>state := Member TAKE_OFF\<rparr> else d);
          d2 = d1\<lparr>time_in_air :=
                  fsub (time_in_air d1)
                       (if 0 < time_in_air d1 then fdiv 1 25 else time_in_air d1)\<rparr>
      in if time_in_air d2 = 0 then Inr (False, d2\<lparr>state := Member LAND\<rparr>, game_display)
         else
           case check_bounds sense maze game_display d2 of
             Inl e \<Rightarrow> Inl e
           | Inr (b, d3, g) \<Rightarrow>
               if K_LEFT key then
                 (case rotate sense maze (- 1) g d3 of
                    Inl e \<Rightarrow> Inl e
                  | Inr (d4, g4) \<Rightarrow> Inr (True, d4, g4))
               else if K_RIGHT key then
                 (case rotate sense maze 1 g d3 of
                    Inl e \<Rightarrow> Inl e
                  | Inr (d4, g4) \<Rightarrow> Inr (True, d4, g4))
               else if K_UP key then
                 (case move m maze (forward 1 d3) of
                    Inl e \<Rightarrow> Inl e
                  | Inr d4 \<Rightarrow> Inr (True, d4, g))
               else if K_DOWN key then
                 (case move m maze (backward 1 d3) of
                    Inl e \<Rightarrow> Inl e
                  | Inr d4 \<Rightarrow> Inr (True, d4, g))
               else Inr (False, d3, g))"

text \<open>
  The budget that line 162 of \<^verbatim>\<open>handle_keys\<close> computes from the old one; used to state what a
  run of calls does to the budget.
\<close>

definition ticked :: "rat \<Rightarrow> rat" where
  "ticked t = fsub t (if 0 < t then fdiv 1 25 else t)"

text \<open>A run of input-handling calls, one pressed-key table per call; an exception ends it.\<close>

fun handle_keys_seq ::
  "math_module \<Rightarrow> sensing \<Rightarrow> surface \<Rightarrow> keys list \<Rightarrow> display \<Rightarrow> drone
     \<Rightarrow> error + (drone \<times> display)" where
  "handle_keys_seq m sense maze [] game_display d = Inr (d, game_display)"
| "handle_keys_seq m sense maze (key # ks) game_display d =
     (case handle_keys m sense maze game_display key d of
        Inl e \<Rightarrow> Inl e
      | Inr (b, d', g) \<Rightarrow> handle_keys_seq m sense maze ks g d')"

text \<open>
  The yaw that lines 46 to 50 of \<^verbatim>\<open>rotate\<close> compute from the old yaw and the delta
  \<^verbatim>\<open>direction * self.speed\<close>; used to state what a run of calls does to the yaw.
\<close>

definition turned :: "rat \<Rightarrow> rat \<Rightarrow> rat" where
  "turned y delta =
     (if 360 \<le> fadd y delta then py_mod (fadd y delta) 360
      else if fadd y delta < 0 then fadd 360 (fadd y delta) else fadd y delta)"

text \<open>A run of \<^verbatim>\<open>rotate\<close> calls, one direction per call.\<close>

fun rotate_seq ::
  "sensing \<Rightarrow> surface \<Rightarrow> rat list \<Rightarrow> display \<Rightarrow> drone \<Rightarrow> error + (drone \<times> display)" where
  "rotate_seq sense maze [] game_display d = Inr (d, game_display)"
| "rotate_seq sense maze (direction # ds) game_display d =
     (case rotate sense maze direction game_display d of
        Inl e \<Rightarrow> Inl e
      | Inr (d', g) \<Rightarrow> rotate_seq sense maze ds g d')"

section \<open>Telemetry\<close>

text \<open>
  \<^verbatim>\<open>get_info_dict\<close> formats the remaining time with \<^verbatim>\<open>str(timedelta(seconds=t)).split('.')[0]\<close>.
  \<^verbatim>\<open>timedelta\<close> is Python's: the constructor splits a float into its whole and fractional
  part, rounds the fraction to a whole number of microseconds (ties to even) and normalises
  to days, seconds in \<open>[0, 86400)\<close> and microseconds in \<open>[0, 1000000)\<close>.
\<close>

record timedelta =
  days :: int
  seconds :: int
  microseconds :: int

definition timedelta_of_seconds :: "rat \<Rightarrow> timedelta" where
  "timedelta_of_seconds s =
     (let whole = py_int s;
          secondsfrac = s - of_int whole;
          us = whole * 1000000 + round_half_even (fmul secondsfrac 1000000)
      in \<lparr>days = us div 86400000000,
          seconds = us mod 86400000000 div 1000000,
          microseconds = us mod 1000000\<rparr>)"

definition digit :: "nat \<Rightarrow> char" where
  "digit k = ''0123456789'' ! k"

fun dec :: "nat \<Rightarrow> string" where
  "dec n = (if n < 10 then [digit n] else dec (n div 10) @ [digit (n mod 10)])"

declare dec.simps [simp del]

text \<open>The conversions \<^verbatim>\<open>%d\<close> and, for a number that is not negative, \<^verbatim>\<open>%0wd\<close>.\<close>

definition fmt_d :: "int \<Rightarrow> string" where
  "fmt_d i = (if i < 0 then CHR ''-'' # dec (nat (- i)) else dec (nat i))"

definition fmt_0d :: "nat \<Rightarrow> int \<Rightarrow> string" where
  "fmt_0d w i = replicate (w - length (dec (nat i))) CHR ''0'' @ dec (nat i)"

definition timedelta_str :: "timedelta \<Rightarrow> string" where
  "timedelta_str td =
     (let mm = seconds td div 60; ss = seconds td mod 60;
          hh = mm div 60; mm' = mm mod 60;
          s = fmt_d hh @ '':'' @ fmt_0d 2 mm' @ '':'' @ fmt_0d 2 ss;
          s1 = (if days td \<noteq> 0
                then fmt_d (days td) @ '' day'' @ (if \<bar>days td\<bar> \<noteq> 1 then ''s'' else [])
                       @ '', '' @ s
                else s)
      in if microseconds td \<noteq> 0 then s1 @ ''.'' @ fmt_0d 6 (microseconds td) else s1)"

text \<open>\<^verbatim>\<open>s.split(sep)[0]\<close> for a separator of one character: the text before its first occurrence.\<close>

definition split_head :: "char \<Rightarrow> string \<Rightarrow> string" where
  "split_head sep s = takeWhile (\<lambda>c. c \<noteq> sep) s"

record info =
  info_yaw :: rat
  info_speed :: rat
  left :: lidar
  right :: lidar
  head :: lidar
  crash :: int
  info_score :: int
  battery :: string

text \<open>
  The dictionary display evaluates its values in order, so \<^verbatim>\<open>self.lidars[2]\<close> raises
  \<^verbatim>\<open>IndexError\<close> for a drone with fewer than three sensors before anything else is read.
\<close>

definition get_info_dict :: "drone \<Rightarrow> error + info" where
  "get_info_dict d =
     (if length (lidars d) < 3 then Inl IndexError
      else Inr \<lparr>info_yaw = yaw d, info_speed = speed d,
                left = lidars d ! 2, right = lidars d ! 1, head = lidars d ! 0,
                crash = error_case d, info_score = score d,
                battery = split_head CHR ''.''
                            (timedelta_str (timedelta_of_seconds (time_in_air d)))\<rparr>)"

text \<open>The format \<open>H:MM:SS\<close>: one digit, a colon, two digits, a colon, two digits.\<close>

definition is_digit :: "char \<Rightarrow> bool" where
  "is_digit c = (c \<in> set ''0123456789'')"

definition is_H_MM_SS :: "string \<Rightarrow> bool" where
  "is_H_MM_SS s =
     (length s = 7 \<and> is_digit (s ! 0) \<and> s ! 1 = CHR '':'' \<and> is_digit (s ! 2) \<and> is_digit (s ! 3)
      \<and> s ! 4 = CHR '':'' \<and> is_digit (s ! 5) \<and> is_digit (s ! 6))"

section \<open>Example inputs\<close>

text \<open>
  The inputs of the concrete runs below: a sensor reading that never reports a hit and one
  that always does, the answers of the C library at angle 0 (the only angle those runs
  use), a field without walls, a field that is wall everywhere but at one pixel, a fresh
  drone without sensors on that pixel, and a set of three sensors.
\<close>

definition no_hit :: sensing where
  "no_hit maze l = None"

definition always_hit :: sensing where
  "always_hit maze l = Some (mount_position l)"

definition math_at_zero :: math_module where
  "math_at_zero = \<lparr>math_cos = (\<lambda>x. 1), math_sin = (\<lambda>x. 0), math_radians = (\<lambda>x. 0)\<rparr>"

definition white :: color where
  "white = (255, 255, 255)"

definition black :: color where
  "black = (0, 0, 0)"

definition open_field :: surface where
  "open_field = \<lparr>width = 100, height = 100, pixel = (\<lambda>p. white)\<rparr>"

definition walled_field :: surface where
  "walled_field =
     \<lparr>width = 100, height = 100, pixel = (\<lambda>p. if p = (50, 50) then white else black)\<rparr>"

definition fresh_drone :: drone where
  "fresh_drone = init 50 50 white black []"

definition three_lidars :: "lidar list" where
  "three_lidars =
     [\<lparr>relative_angle = 0, mount_position = (50, 50), max_range = 100\<rparr>,
      \<lparr>relative_angle = 30, mount_position = (50, 50), max_range = 100\<rparr>,
      \<lparr>relative_angle = - 30, mount_position = (50, 50), max_range = 100\<rparr>]"

definition no_key :: keys where
  "no_key = \<lparr>K_LEFT = False, K_RIGHT = False, K_UP = False, K_DOWN = False\<rparr>"

definition up_key :: keys where
  "up_key = \<lparr>K_LEFT = False, K_RIGHT = False, K_UP = True, K_DOWN = False\<rparr>"

section \<open>Properties of rounding\<close>

lemma bit_length_bounds:
  "0 < n \<Longrightarrow> 2 ^ (bit_length n - 1) \<le> n \<and> n < 2 ^ bit_length n"
proof (induction n rule: bit_length.induct)
  case (1 n)
  show ?case
  proof (cases "n div 2 = 0")
    case True
    with "1.prems" have "n = 1" by presburger
    then show ?thesis by (simp add: bit_length.simps)
  next
    case False
    then have pos: "0 < n div 2" by simp
    from "1.prems" have n0: "n \<noteq> 0" by simp
    from "1.IH"[OF n0 pos]
    have ih: "2 ^ (bit_length (n div 2) - 1) \<le> n div 2" "n div 2 < 2 ^ bit_length (n div 2)"
      by auto
    have bl: "bit_length n = Suc (bit_length (n div 2))"
      using n0 by (subst bit_length.simps) simp
    have "2 * 2 ^ (bit_length (n div 2) - 1) \<le> n" using ih(1) by linarith
    moreover have "n < 2 * 2 ^ bit_length (n div 2)" using ih(2) by linarith
    moreover have "0 < bit_length (n div 2)"
      using pos by (subst bit_length.simps) simp
    ultimately show ?thesis unfolding bl
      by (cases "bit_length (n div 2)") auto
  qed
qed

lemma bit_length_pos: "0 < n \<Longrightarrow> 0 < bit_length n"
  by (subst bit_length.simps) simp

lemma ilog2_bounds:
  assumes "x \<noteq> 0"
  shows "2 powi ilog2 x \<le> \<bar>x\<bar> \<and> \<bar>x\<bar> < 2 powi (ilog2 x + 1)"
proof (cases "1 \<le> \<bar>x\<bar>")
  case True
  define m where "m = nat \<lfloor>\<bar>x\<bar>\<rfloor>"
  define b where "b = bit_length m"
  have m1: "0 < m" using True by (simp add: m_def le_floor_iff)
  have fl0: "0 \<le> \<lfloor>\<bar>x\<bar>\<rfloor>" by simp
  have mx: "of_nat m \<le> \<bar>x\<bar>" "\<bar>x\<bar> < of_nat m + 1"
    using floor_correct[of "\<bar>x\<bar>"] fl0 by (simp_all add: m_def)
  from bit_length_bounds[OF m1] have bb: "2 ^ (b - 1) \<le> m" "m < 2 ^ b"
    by (simp_all add: b_def)
  have bpos: "0 < b" using bit_length_pos[OF m1] by (simp add: b_def)
  have il: "ilog2 x = int b - 1" using True by (simp add: ilog2_def m_def b_def)
  have "(2::rat) ^ (b - 1) \<le> of_nat m" using bb(1) by (metis of_nat_le_iff of_nat_numeral of_nat_power)
  then have lo: "(2::rat) ^ (b - 1) \<le> \<bar>x\<bar>" using mx(1) by linarith
  have "m + 1 \<le> 2 ^ b" using bb(2) by simp
  then have "(of_nat (m + 1) :: rat) \<le> of_nat (2 ^ b)" by (simp only: of_nat_le_iff)
  then have "(of_nat m :: rat) + 1 \<le> 2 ^ b" by simp
  then have hi: "\<bar>x\<bar> < 2 ^ b" using mx(2) by linarith
  have e1: "(2::rat) powi (int b - 1) = 2 ^ (b - 1)"
    using bpos by (simp add: power_int_def nat_diff_distrib')
  have e2: "(2::rat) powi (int b - 1 + 1) = 2 ^ b" by simp
  show ?thesis unfolding il e1 e2 using lo hi by simp
next
  case False
  define y where "y = 1 / \<bar>x\<bar>"
  define m where "m = nat (\<lceil>y\<rceil> - 1)"
  define b where "b = bit_length m"
  have xpos: "0 < \<bar>x\<bar>" using assms by simp
  have y1: "1 < y" using False xpos by (simp add: y_def)
  then have c2: "2 \<le> \<lceil>y\<rceil>" by (simp add: le_ceiling_iff)
  have m1: "0 < m" using c2 by (simp add: m_def)
  have my: "of_nat m < y" "y \<le> of_nat m + 1"
    using c2 ceiling_correct[of y] by (simp_all add: m_def)
  from bit_length_bounds[OF m1] have bb: "2 ^ (b - 1) \<le> m" "m < 2 ^ b"
    by (simp_all add: b_def)
  have bpos: "0 < b" using bit_length_pos[OF m1] by (simp add: b_def)
  have il: "ilog2 x = - int b" using False by (simp add: ilog2_def m_def b_def y_def)
  have "(2::rat) ^ (b - 1) \<le> of_nat m" using bb(1) by (metis of_nat_le_iff of_nat_numeral of_nat_power)
  then have lo: "(2::rat) ^ (b - 1) < y" using my(1) by linarith
  have "m + 1 \<le> 2 ^ b" using bb(2) by simp
  then have "(of_nat (m + 1) :: rat) \<le> of_nat (2 ^ b)" by (simp only: of_nat_le_iff)
  then have "(of_nat m :: rat) + 1 \<le> 2 ^ b" by simp
  then have hi: "y \<le> 2 ^ b" using my(2) by linarith
  have xy: "\<bar>x\<bar> = 1 / y" using xpos by (simp add: y_def)
  have ypos: "0 < y" using y1 by simp
  have r1: "1 / 2 ^ b \<le> \<bar>x\<bar>" unfolding xy using hi ypos by (simp add: field_simps)
  have r2: "\<bar>x\<bar> < 1 / 2 ^ (b - 1)" unfolding xy using lo ypos by (simp add: field_simps)
  have e1: "(2::rat) powi (- int b) = 1 / 2 ^ b"
    by (simp add: power_int_minus_divide)
  have "(2::rat) powi (- int b + 1) = 2 powi (- int (b - 1))"
    using bpos by (simp add: of_nat_diff)
  then have e2: "(2::rat) powi (- int b + 1) = 1 / 2 ^ (b - 1)"
    by (simp add: power_int_minus_divide)
  show ?thesis unfolding il e1 e2 using r1 r2 by simp
qed

lemma binade_unique:
  fixes a :: rat
  assumes "2 powi k \<le> a" "a < 2 powi (k + 1)" "2 powi j \<le> a" "a < 2 powi (j + 1)"
  shows "k = j"
proof (rule ccontr)
  assume "k \<noteq> j"
  then consider "k + 1 \<le> j" | "j + 1 \<le> k" by linarith
  then show False
  proof cases
    case 1
    then have "(2::rat) powi (k + 1) \<le> 2 powi j" by (intro power_int_increasing) auto
    with assms show False by linarith
  next
    case 2
    then have "(2::rat) powi (j + 1) \<le> 2 powi k" by (intro power_int_increasing) auto
    with assms show False by linarith
  qed
qed

lemma ilog2_eqI:
  assumes "2 powi k \<le> \<bar>x\<bar>" "\<bar>x\<bar> < 2 powi (k + 1)"
  shows "ilog2 x = k"
proof -
  have "0 < (2::rat) powi k" by simp
  with assms(1) have "0 < \<bar>x\<bar>" by linarith
  then have "x \<noteq> 0" by simp
  from ilog2_bounds[OF this] assms show ?thesis
    using binade_unique[of "ilog2 x" "\<bar>x\<bar>" k] by simp
qed

lemma round_half_even_error: "\<bar>of_int (round_half_even q) - q\<bar> \<le> 1 / 2"
proof -
  define f where "f = \<lfloor>q\<rfloor>"
  have "of_int f \<le> q" "q < of_int f + 1"
    using floor_correct[of q] by (auto simp: f_def)
  then show ?thesis
    unfolding round_half_even_def Let_def f_def[symmetric] by (auto simp: abs_if)
qed

lemma round_half_even_eqI:
  assumes "\<bar>q - of_int n\<bar> < 1 / 2"
  shows "round_half_even q = n"
proof -
  have f: "of_int \<lfloor>q\<rfloor> \<le> q" "q < of_int \<lfloor>q\<rfloor> + 1" using floor_correct[of q] by auto
  have e: "\<bar>of_int (round_half_even q) - q\<bar> \<le> 1 / 2" by (rule round_half_even_error)
  have "\<bar>(of_int (round_half_even q) :: rat) - of_int n\<bar> < 1" using assms e by linarith
  then have "\<bar>(of_int (round_half_even q - n) :: rat)\<bar> < 1" by simp
  then have "\<bar>round_half_even q - n\<bar> < 1" 
    by (metis of_int_abs of_int_less_1_iff)
  then show ?thesis by linarith
qed

lemma round_half_even_of_int [simp]: "round_half_even (of_int n) = n"
  by (rule round_half_even_eqI) simp

lemma quantum_eqI:
  assumes "2 powi (e + 52) \<le> \<bar>x\<bar>" "\<bar>x\<bar> < 2 powi (e + 53)" "- 1074 \<le> e"
  shows "quantum x = e"
proof -
  have "ilog2 x = e + 52" using assms(1,2) by (intro ilog2_eqI) (simp_all add: add.commute add.left_commute)
  then show ?thesis using assms(3) by (simp add: quantum_def)
qed

lemma rnd_eqI:
  assumes "2 powi (e + 52) \<le> \<bar>x\<bar>" "\<bar>x\<bar> < 2 powi (e + 53)" "- 1074 \<le> e"
    and "round_half_even (x / 2 powi e) = n"
  shows "rnd x = of_int n * 2 powi e"
proof -
  have "0 < (2::rat) powi (e + 52)" by simp
  with assms(1) have "0 < \<bar>x\<bar>" by linarith
  then have "x \<noteq> 0" by simp
  moreover have "quantum x = e" using assms(1-3) by (rule quantum_eqI)
  ultimately show ?thesis using assms(4) by (simp add: rnd_def)
qed

lemma quantum_le:
  assumes "x \<noteq> 0" "\<bar>x\<bar> < 2 powi (k + 1)" "- 1022 \<le> k"
  shows "quantum x \<le> k - 52"
proof -
  have "2 powi ilog2 x < (2::rat) powi (k + 1)"
    using ilog2_bounds[OF assms(1)] assms(2) by linarith
  then have "ilog2 x < k + 1"
    by (metis linorder_not_less one_le_numeral power_int_increasing)
  then show ?thesis using assms(3) by (simp add: quantum_def)
qed

lemma rnd_error:
  assumes "\<bar>x\<bar> < 2 powi (k + 1)" "- 1022 \<le> k"
  shows "\<bar>rnd x - x\<bar> \<le> 2 powi (k - 53)"
proof (cases "x = 0")
  case True
  then show ?thesis by (simp add: rnd_def)
next
  case False
  define u :: rat where "u = 2 powi quantum x"
  have upos: "0 < u" by (simp add: u_def)
  have "quantum x \<le> k - 52" using False assms by (rule quantum_le)
  then have ule: "u \<le> 2 powi (k - 52)" unfolding u_def by (intro power_int_increasing) auto
  have "(2::rat) powi (k - 52) = 2 powi (k - 53) * 2"
    using power_int_add[of "2::rat" "k - 53" 1] by simp
  then have ule': "u / 2 \<le> 2 powi (k - 53)" using ule by simp
  have "rnd x - x = (of_int (round_half_even (x / u)) - x / u) * u"
    using False upos by (simp add: rnd_def u_def field_simps)
  then have "\<bar>rnd x - x\<bar> = \<bar>of_int (round_half_even (x / u)) - x / u\<bar> * u"
    using upos by (simp add: abs_mult)
  also have "\<dots> \<le> (1 / 2) * u"
    using round_half_even_error[of "x / u"] upos by (intro mult_right_mono) auto
  finally show ?thesis using ule' by simp
qed

lemma rnd_0 [simp]: "rnd 0 = 0"
  by (simp add: rnd_def)

lemma rnd_nonneg: "0 \<le> x \<Longrightarrow> 0 \<le> rnd x"
proof -
  assume x: "0 \<le> x"
  have "0 \<le> x / 2 powi quantum x" using x by simp
  then have "0 \<le> round_half_even (x / 2 powi quantum x)"
    by (auto simp: round_half_even_def Let_def)
  then show ?thesis by (simp add: rnd_def)
qed

lemma floor_rat_numeral [simp]:
  "\<lfloor>numeral a / numeral b :: rat\<rfloor> = numeral a div numeral b"
  using floor_divide_of_int_eq[of "numeral a" "numeral b", where ?'a = rat] by simp

lemma floor_rat_neg_numeral [simp]:
  "\<lfloor>- (numeral a / numeral b) :: rat\<rfloor> = - numeral a div numeral b"
  using floor_divide_of_int_eq[of "- numeral a" "numeral b", where ?'a = rat] by simp

lemma rnd_nearI:
  assumes "2 powi (e + 52) \<le> \<bar>x\<bar>" "\<bar>x\<bar> < 2 powi (e + 53)" "- 1074 \<le> e"
    and "\<bar>x / 2 powi e - of_int n\<bar> < 1 / 2"
  shows "rnd x = of_int n * 2 powi e"
  using assms(1-3) round_half_even_eqI[OF assms(4)] by (rule rnd_eqI)

lemma rnd_representable:
  assumes "\<bar>k\<bar> < 2 ^ 53" "- 1074 \<le> e"
  shows "rnd (of_int k * 2 powi e) = of_int k * 2 powi e"
proof (cases "k = 0")
  case True
  then show ?thesis by simp
next
  case False
  define x :: rat where "x = of_int k * 2 powi e"
  have x0: "x \<noteq> 0" using False by (simp add: x_def)
  have "\<bar>x\<bar> = of_int \<bar>k\<bar> * 2 powi e" by (simp add: x_def abs_mult)
  also have "\<dots> < 2 ^ 53 * 2 powi e"
  proof -
    have "(of_int \<bar>k\<bar> :: rat) < of_int (2 ^ 53)" using assms(1) by (simp only: of_int_less_iff)
    then show ?thesis by simp
  qed
  also have "\<dots> = 2 powi (e + 52 + 1)"
    by (simp add: power_int_add)
  finally have "\<bar>x\<bar> < 2 powi (e + 52 + 1)" .
  then have q: "quantum x \<le> e" using quantum_le[OF x0, of "e + 52"] assms(2) by simp
  define j where "j = nat (e - quantum x)"
  define u :: rat where "u = 2 powi quantum x"
  have upos: "0 < u" by (simp add: u_def)
  have ej: "e = quantum x + int j" using q by (simp add: j_def)
  have pw: "(2::rat) powi e = u * 2 ^ j"
    unfolding u_def by (subst ej) (simp add: power_int_add)
  have xu: "x = of_int (k * 2 ^ j) * u"
    unfolding x_def pw by simp
  then have "x / u = of_int (k * 2 ^ j)" using upos by simp
  then have "round_half_even (x / u) = k * 2 ^ j"
    by (simp only: round_half_even_of_int)
  then have "rnd x = of_int (k * 2 ^ j) * u"
    using x0 by (simp add: rnd_def u_def)
  then have "rnd x = x" using xu by simp
  then show ?thesis by (simp add: x_def)
qed

lemma lit_fifth: "rnd (1 / 5) = 3602879701896397 / 18014398509481984"
  by (rule rnd_nearI[where e = "- 55" and n = 7205759403792794, THEN trans]) simp_all

lemma rnd_fifth: "rnd (3602879701896397 / 18014398509481984) = 3602879701896397 / 18014398509481984"
  using rnd_representable[of 3602879701896397 "- 54"] by simp

lemma step_default: "fmul (rnd (1 / 5)) 1 = 3602879701896397 / 18014398509481984"
  by (simp add: fmul_def lit_fifth rnd_fifth)

lemma fdiv_1_25: "fdiv 1 25 = 5764607523034235 / 144115188075855872"
  unfolding fdiv_def
  by (rule rnd_nearI[where e = "- 57" and n = 5764607523034235, THEN trans]) simp_all

lemma rnd_of_int: "\<bar>k\<bar> < 2 ^ 53 \<Longrightarrow> rnd (of_int k) = of_int k"
  using rnd_representable[of k 0] by simp

lemma rnd_numeral [simp]: "(numeral n :: int) < 2 ^ 53 \<Longrightarrow> rnd (numeral n) = numeral n"
  using rnd_of_int[of "numeral n"] by simp

lemma rnd_neg_numeral [simp]:
  "(numeral n :: int) < 2 ^ 53 \<Longrightarrow> rnd (- numeral n) = - numeral n"
  using rnd_of_int[of "- numeral n"] by simp

lemma rnd_1 [simp]: "rnd 1 = 1"
  using rnd_of_int[of 1] by simp

lemma rnd_neg_1 [simp]: "rnd (- 1) = - 1"
  using rnd_of_int[of "- 1"] by simp

lemma py_int_numeral [simp]: "py_int (numeral n) = numeral n"
  by (simp add: py_int_def)

lemma py_int_0 [simp]: "py_int 0 = 0"
  by (simp add: py_int_def)

lemma round_half_even_numeral [simp]: "round_half_even (numeral n) = numeral n"
  using round_half_even_of_int[of "numeral n"] by simp

lemma round_half_even_0 [simp]: "round_half_even 0 = 0"
  using round_half_even_of_int[of 0] by simp

section \<open>Throttle\<close>

lemma speed_forward:
  "speed (forward 1 d) =
     (if rnd (speed d + 3602879701896397 / 18014398509481984) < 2
      then rnd (speed d + 3602879701896397 / 18014398509481984) else 2)"
  by (simp add: forward_def Let_def step_default fadd_def)

lemma forward_le_2: "speed (forward acc d) \<le> 2"
  by (simp add: forward_def Let_def)

lemma forward_progress:
  assumes "0 \<le> speed d" "speed d \<le> 2"
  shows "speed (forward 1 d) = 2 \<or> speed d + 19 / 100 \<le> speed (forward 1 d)"
proof -
  define x where "x = speed d + 3602879701896397 / 18014398509481984"
  have "\<bar>x\<bar> < 2 powi (1 + 1)" using assms by (simp add: x_def abs_if)
  then have "\<bar>rnd x - x\<bar> \<le> 2 powi (1 - 53)" by (rule rnd_error) simp
  moreover have "(2::rat) powi (1 - 53) \<le> 1 / 100" by simp
  ultimately have "x - 1 / 100 \<le> rnd x" by linarith
  then have "speed d + 19 / 100 \<le> rnd x" by (simp add: x_def)
  then show ?thesis by (simp add: speed_forward x_def)
qed

lemma forward_nonneg: "0 \<le> speed d \<Longrightarrow> 0 \<le> speed (forward 1 d)"
  by (simp add: speed_forward rnd_nonneg)

lemma forward_iterate:
  assumes "0 \<le> speed d" "speed d \<le> 2"
  shows "0 \<le> speed ((forward 1 ^^ n) d) \<and> speed ((forward 1 ^^ n) d) \<le> 2
         \<and> (speed ((forward 1 ^^ n) d) = 2
              \<or> speed d + 19 / 100 * of_nat n \<le> speed ((forward 1 ^^ n) d))"
proof (induction n)
  case 0
  show ?case using assms by simp
next
  case (Suc n)
  let ?p = "(forward 1 ^^ n) d"
  from Suc.IH have b: "0 \<le> speed ?p" "speed ?p \<le> 2" by simp_all
  have step: "speed (forward 1 ?p) = 2 \<or> speed ?p + 19 / 100 \<le> speed (forward 1 ?p)"
    using b by (rule forward_progress)
  have le: "speed (forward 1 ?p) \<le> 2" by (rule forward_le_2)
  have ge: "0 \<le> speed (forward 1 ?p)" using b(1) by (rule forward_nonneg)
  have "speed (forward 1 ?p) = 2
        \<or> speed d + 19 / 100 * of_nat (Suc n) \<le> speed (forward 1 ?p)"
  proof (cases "speed (forward 1 ?p) = 2")
    case True
    then show ?thesis by simp
  next
    case False
    with step have s1: "speed ?p + 19 / 100 \<le> speed (forward 1 ?p)" by simp
    with le have "speed ?p \<noteq> 2" by auto
    with Suc.IH have "speed d + 19 / 100 * of_nat n \<le> speed ?p" by simp
    moreover have "(19 / 100 :: rat) * of_nat (Suc n) = 19 / 100 * of_nat n + 19 / 100"
      by (simp add: distrib_left)
    ultimately show ?thesis using s1 by linarith
  qed
  with le ge show ?case by simp
qed

text \<open>
  C5.  From every speed in \<open>[0, 2]\<close> one \<^verbatim>\<open>forward()\<close> call leaves a speed of at most 2, no
  number of calls takes the speed above 2, and from the eleventh call on the speed is
  exactly 2.
\<close>

theorem forward_converges:
  assumes "0 \<le> speed d" "speed d \<le> 2"
  shows "speed (forward 1 d) \<le> 2
         \<and> (\<forall>n. speed ((forward 1 ^^ n) d) \<le> 2)
         \<and> (\<forall>n\<ge>11. speed ((forward 1 ^^ n) d) = 2)"
proof (intro conjI allI impI)
  show "speed (forward 1 d) \<le> 2" by (rule forward_le_2)
next
  fix n
  show "speed ((forward 1 ^^ n) d) \<le> 2" using forward_iterate[OF assms, of n] by simp
next
  fix n :: nat
  assume n: "11 \<le> n"
  have "(11::rat) \<le> of_nat n" using n by (metis of_nat_le_iff of_nat_numeral)
  then have "2 < speed d + 19 / 100 * of_nat n" using assms(1) by linarith
  with forward_iterate[OF assms, of n] show "speed ((forward 1 ^^ n) d) = 2" by auto
qed

theorem forward_converges_witness:
  "speed (forward 1 (init 0 0 (0, 0, 0) (255, 255, 255) [])) \<le> 2
   \<and> speed ((forward 1 ^^ 11) (init 0 0 (0, 0, 0) (255, 255, 255) [])) = 2"
  using forward_converges[of "init 0 0 (0, 0, 0) (255, 255, 255) []"]
  by (simp add: init_def)

section \<open>Boundary checks\<close>

lemma check_bounds_on_raster:
  assumes "get_at maze (py_int (x_position d), py_int (y_position d)) = Inr c"
  shows "\<exists>g'. check_bounds sense maze g d =
           Inr (False, (if c = bounds_color d then d\<lparr>error_case := error_case d + 1\<rparr> else d), g')"
  using assms by (simp add: check_bounds_def Let_def)

lemma check_bounds_off_raster:
  assumes "get_at maze (py_int (x_position d), py_int (y_position d)) = Inl e"
  shows "check_bounds sense maze g d = Inl e"
  using assms by (simp add: check_bounds_def Let_def)

lemma check_bounds_result:
  assumes "check_bounds sense maze g d = Inr (b, d', g')"
  shows "\<not> b
         \<and> d' = (if get_at maze (py_int (x_position d), py_int (y_position d)) = Inr (bounds_color d)
                 then d\<lparr>error_case := error_case d + 1\<rparr> else d)"
  using assms by (auto simp: check_bounds_def Let_def split: sum.splits if_splits)

text \<open>
  C10.  Whenever \<^verbatim>\<open>check_bounds\<close> returns, it returns \<^verbatim>\<open>False\<close>; and it does return, with
  \<^verbatim>\<open>False\<close>, whenever the drone's own pixel lies on the raster, also when that pixel has the
  bounds colour and the crash counter goes up.
\<close>

theorem check_bounds_returns_False:
  "(\<forall>b d' g'. check_bounds sense maze g d = Inr (b, d', g') \<longrightarrow> \<not> b)
   \<and> (\<forall>c. get_at maze (py_int (x_position d), py_int (y_position d)) = Inr c \<longrightarrow>
          (\<exists>g'. check_bounds sense maze g d =
             Inr (False,
                  (if c = bounds_color d then d\<lparr>error_case := error_case d + 1\<rparr> else d), g')))"
  using check_bounds_result check_bounds_on_raster by blast

theorem check_bounds_returns_False_witness:
  "get_at walled_field (py_int (x_position (fresh_drone\<lparr>x_position := 10\<rparr>)),
                        py_int (y_position (fresh_drone\<lparr>x_position := 10\<rparr>))) = Inr black
   \<and> black = bounds_color (fresh_drone\<lparr>x_position := 10\<rparr>)
   \<and> (\<exists>g'. check_bounds no_hit walled_field [] (fresh_drone\<lparr>x_position := 10\<rparr>) =
          Inr (False, fresh_drone\<lparr>x_position := 10, error_case := 1\<rparr>, g'))"
proof -
  let ?d = "fresh_drone\<lparr>x_position := 10\<rparr>"
  have p: "get_at walled_field (py_int (x_position ?d), py_int (y_position ?d)) = Inr black"
    by (simp add: fresh_drone_def init_def get_at_def walled_field_def)
  have b: "black = bounds_color ?d" by (simp add: fresh_drone_def init_def)
  from check_bounds_returns_False[of no_hit walled_field "[]" ?d] p
  have "\<exists>g'. check_bounds no_hit walled_field [] ?d =
          Inr (False, (if black = bounds_color ?d then ?d\<lparr>error_case := error_case ?d + 1\<rparr> else ?d), g')"
    by blast
  moreover have "(if black = bounds_color ?d then ?d\<lparr>error_case := error_case ?d + 1\<rparr> else ?d)
                 = fresh_drone\<lparr>x_position := 10, error_case := 1\<rparr>"
    by (simp add: fresh_drone_def init_def)
  ultimately show ?thesis using p b by simp
qed

section \<open>Moving\<close>

lemma calc_y_x_update [simp]: "calc_y m (d\<lparr>x_position := x\<rparr>) = calc_y m d"
  by (simp add: calc_y_def)

lemma move_on_raster:
  assumes "p = (round_half_even (fadd (x_position d) (fmul (speed d) (calc_x m d))),
                round_half_even (fadd (y_position d) (fmul (speed d) (calc_y m d))))"
    and "get_at maze p = Inr c"
  shows "move m maze d =
           Inr (d\<lparr>x_position := fadd (x_position d) (fmul (speed d) (calc_x m d)),
                  y_position := fadd (y_position d) (fmul (speed d) (calc_y m d)),
                  lidars := map (lidar_move p) (lidars d),
                  error_case := (if c = bounds_color d then error_case d + 1 else error_case d)\<rparr>)"
  using assms
  by (simp add: move_def Let_def change_lidars_positions_def is_crashed_def get_position_def)

lemma move_off_raster:
  assumes "get_at maze (round_half_even (fadd (x_position d) (fmul (speed d) (calc_x m d))),
                       round_half_even (fadd (y_position d) (fmul (speed d) (calc_y m d)))) = Inl e"
  shows "move m maze d = Inl e"
  using assms
  by (simp add: move_def Let_def change_lidars_positions_def is_crashed_def get_position_def)

lemma move_result:
  assumes "move m maze d = Inr d'"
  shows "error_case d' =
           error_case d + (if get_at maze (get_position d') = Inr (bounds_color d) then 1 else 0)"
  using assms
  by (auto simp: move_def Let_def change_lidars_positions_def is_crashed_def get_position_def
           split: sum.splits if_splits)

text \<open>
  C8.  The crash counter after \<^verbatim>\<open>check_bounds\<close> is the old one plus one exactly if the pixel
  at the drone's own truncated position has the bounds colour, and the returned flag and
  drone are the same whatever the sensors report; the crash counter after \<^verbatim>\<open>move\<close> is the old
  one plus one exactly if the pixel at the drone's own rounded position has the bounds
  colour.  No sensor reading enters either.
\<close>

theorem crash_count_own_pixel_only:
  "(check_bounds sense maze g d = Inr (b, d', g') \<longrightarrow>
      error_case d' = error_case d
        + (if get_at maze (py_int (x_position d), py_int (y_position d)) = Inr (bounds_color d)
           then 1 else 0)
      \<and> (\<forall>sense2. \<exists>g2. check_bounds sense2 maze g d = Inr (b, d', g2)))
   \<and> (move m maze d = Inr d'' \<longrightarrow>
      error_case d'' = error_case d
        + (if get_at maze (get_position d'') = Inr (bounds_color d) then 1 else 0))"
proof (intro conjI impI allI)
  assume a: "check_bounds sense maze g d = Inr (b, d', g')"
  from check_bounds_result[OF a]
  show "error_case d' = error_case d
        + (if get_at maze (py_int (x_position d), py_int (y_position d)) = Inr (bounds_color d)
           then 1 else 0)"
    by simp
next
  fix sense2
  assume a: "check_bounds sense maze g d = Inr (b, d', g')"
  then show "\<exists>g2. check_bounds sense2 maze g d = Inr (b, d', g2)"
    by (auto simp: check_bounds_def Let_def split: sum.splits)
next
  assume "move m maze d = Inr d''"
  then show "error_case d'' = error_case d
        + (if get_at maze (get_position d'') = Inr (bounds_color d) then 1 else 0)"
    by (rule move_result)
qed

text \<open>
  A sensor that reports a hit at every call gets its marker drawn and leaves the crash
  counter of a drone on a free pixel alone.
\<close>

theorem crash_count_own_pixel_only_witness:
  "check_bounds always_hit walled_field []
     (fresh_drone\<lparr>lidars := [\<lparr>relative_angle = 0, mount_position = (50, 49), max_range = 5\<rparr>]\<rparr>)
   = Inr (False,
          fresh_drone\<lparr>lidars := [\<lparr>relative_angle = 0, mount_position = (50, 49), max_range = 5\<rparr>]\<rparr>,
          [(black, (50, 49), 3)])
   \<and> error_case (fresh_drone\<lparr>lidars := [\<lparr>relative_angle = 0, mount_position = (50, 49), max_range = 5\<rparr>]\<rparr>)
     = 0"
proof -
  let ?d = "fresh_drone\<lparr>lidars := [\<lparr>relative_angle = 0, mount_position = (50, 49), max_range = 5\<rparr>]\<rparr>"
  have r: "check_bounds always_hit walled_field [] ?d = Inr (False, ?d, [(black, (50, 49), 3)])"
    by (simp add: check_bounds_def Let_def always_hit_def draw_bounds_def fresh_drone_def init_def
                  get_at_def walled_field_def white_def black_def)
  from crash_count_own_pixel_only[of always_hit walled_field "[]" ?d False ?d "[(black, (50, 49), 3)]"] r
  have "error_case ?d = error_case ?d
        + (if get_at walled_field (py_int (x_position ?d), py_int (y_position ?d)) = Inr (bounds_color ?d)
           then 1 else 0)"
    by blast
  then show ?thesis using r by (simp add: fresh_drone_def init_def)
qed

section \<open>The flight-time budget\<close>

lemma handle_keys_exhausted:
  assumes "time_in_air d = 0"
  shows "handle_keys m sense maze g key d = Inr (False, d\<lparr>state := Member LAND\<rparr>, g)"
proof -
  have "d\<lparr>time_in_air := 0\<rparr> = d" using assms by simp
  then show ?thesis using assms by (simp add: handle_keys_def Let_def fsub_def)
qed

text \<open>
  C2, as the code has it.  With a budget of 0 an input-handling call returns \<^verbatim>\<open>False\<close> and
  leaves the state \<^verbatim>\<open>LAND\<close> and the budget 0; so the following call finds the budget at 0
  again, and it too returns \<^verbatim>\<open>False\<close> without processing its intent and leaves the state
  \<^verbatim>\<open>LAND\<close> (\<^verbatim>\<open>TAKE_OFF\<close> is set and overwritten within the call).
\<close>

theorem exhausted_budget_stays_landed:
  assumes "time_in_air d = 0"
  shows "handle_keys m sense maze g key d = Inr (False, d\<lparr>state := Member LAND\<rparr>, g)
         \<and> handle_keys m sense maze g key2 (d\<lparr>state := Member LAND\<rparr>)
             = Inr (False, d\<lparr>state := Member LAND\<rparr>, g)"
  using assms handle_keys_exhausted[of "d\<lparr>state := Member LAND\<rparr>" m sense maze g key2]
  by (simp add: handle_keys_exhausted)

theorem exhausted_budget_stays_landed_witness:
  "time_in_air (fresh_drone\<lparr>time_in_air := 0\<rparr>) = 0
   \<and> handle_keys math_at_zero no_hit open_field [] up_key (fresh_drone\<lparr>time_in_air := 0\<rparr>)
       = Inr (False, fresh_drone\<lparr>time_in_air := 0, state := Member LAND\<rparr>, [])
   \<and> handle_keys math_at_zero no_hit open_field [] up_key
         (fresh_drone\<lparr>time_in_air := 0, state := Member LAND\<rparr>)
       = Inr (False, fresh_drone\<lparr>time_in_air := 0, state := Member LAND\<rparr>, [])"
  using exhausted_budget_stays_landed[of "fresh_drone\<lparr>time_in_air := 0\<rparr>"
          math_at_zero no_hit open_field "[]" up_key up_key]
  by simp

text \<open>
  C2 as stated fails: after the call that lands the drone with an empty budget, a
  call with the up key pressed returns \<^verbatim>\<open>False\<close>, not \<^verbatim>\<open>True\<close>, and the state is \<^verbatim>\<open>LAND\<close>, not
  \<^verbatim>\<open>TAKE_OFF\<close>.
\<close>

theorem revival_counterexample:
  "handle_keys math_at_zero no_hit open_field [] up_key (fresh_drone\<lparr>time_in_air := 0\<rparr>)
     = Inr (False, fresh_drone\<lparr>time_in_air := 0, state := Member LAND\<rparr>, [])
   \<and> handle_keys math_at_zero no_hit open_field [] up_key
         (fresh_drone\<lparr>time_in_air := 0, state := Member LAND\<rparr>)
     = Inr (False, fresh_drone\<lparr>time_in_air := 0, state := Member LAND\<rparr>, [])
   \<and> state (fresh_drone\<lparr>time_in_air := 0, state := Member LAND\<rparr>) \<noteq> Member TAKE_OFF"
  by (simp add: handle_keys_exhausted)

section \<open>Leaving the start pixel\<close>

text \<open>
  C6.  On a raster whose pixels all have the bounds colour except \<open>p0\<close>, a \<^verbatim>\<open>move()\<close> call that
  takes the drone to a rounded position \<open>p\<close> of the raster other than \<open>p0\<close> returns with the
  crash counter one higher.  (For a position outside the raster \<^verbatim>\<open>get_at\<close> raises, see
  \<open>move_off_raster\<close>.)
\<close>

theorem move_off_start_pixel_crashes:
  assumes "\<forall>q. q \<noteq> p0 \<longrightarrow> pixel maze q = bounds_color d"
    and "p = (round_half_even (fadd (x_position d) (fmul (speed d) (calc_x m d))),
              round_half_even (fadd (y_position d) (fmul (speed d) (calc_y m d))))"
    and "0 \<le> fst p \<and> fst p < width maze \<and> 0 \<le> snd p \<and> snd p < height maze"
    and "p \<noteq> p0"
  shows "\<exists>d'. move m maze d = Inr d' \<and> get_position d' = p
              \<and> error_case d' = error_case d + 1"
proof -
  have "get_at maze p = Inr (bounds_color d)"
    using assms(1)[rule_format, of p] assms(3,4) by (simp add: get_at_def)
  from move_on_raster[OF assms(2) this]
  show ?thesis using assms(2) by (simp add: get_position_def)
qed

theorem move_off_start_pixel_crashes_witness:
  "pixel walled_field (53, 50) = bounds_color (fresh_drone\<lparr>speed := 1\<rparr>)
   \<and> get_position (fresh_drone\<lparr>speed := 1\<rparr>) = (50, 50)
   \<and> (\<exists>d'. move math_at_zero walled_field (fresh_drone\<lparr>speed := 1\<rparr>) = Inr d'
             \<and> get_position d' = (53, 50)
             \<and> error_case d' = error_case (fresh_drone\<lparr>speed := 1\<rparr>) + 1)"
proof -
  let ?d = "fresh_drone\<lparr>speed := 1\<rparr>"
  have a1: "\<forall>q. q \<noteq> (50, 50) \<longrightarrow> pixel walled_field q = bounds_color ?d"
    by (simp add: walled_field_def fresh_drone_def init_def)
  have cx: "calc_x math_at_zero ?d = 3"
    by (simp add: calc_x_def math_at_zero_def fresh_drone_def init_def fmul_def)
  have cy: "calc_y math_at_zero ?d = 0"
    by (simp add: calc_y_def math_at_zero_def fresh_drone_def init_def fmul_def)
  have a2: "(53, 50) = (round_half_even (fadd (x_position ?d) (fmul (speed ?d) (calc_x math_at_zero ?d))),
              round_half_even (fadd (y_position ?d) (fmul (speed ?d) (calc_y math_at_zero ?d))))"
    unfolding cx cy by (simp add: fresh_drone_def init_def fmul_def fadd_def)
  have a3: "0 \<le> fst (53::int, 50::int) \<and> fst (53::int, 50::int) < width walled_field
            \<and> 0 \<le> snd (53::int, 50::int) \<and> snd (53::int, 50::int) < height walled_field"
    by (simp add: walled_field_def)
  have g: "get_position ?d = (50, 50)"
    by (simp add: get_position_def fresh_drone_def init_def)
  have b: "pixel walled_field (53, 50) = bounds_color ?d"
    by (simp add: walled_field_def fresh_drone_def init_def)
  from move_off_start_pixel_crashes[OF a1 a2 a3] g b show ?thesis by simp
qed

section \<open>Rotating\<close>

text \<open>The yaw update away from the rounding boundary: it wraps at 360 and below 0.\<close>

lemma turned_examples:
  "turned 359 2 = 1" "turned 1 (- 2) = 359" "turned 10 2 = 12"
  by (simp_all add: turned_def fadd_def py_mod_def)

lemma rotate_on_raster:
  assumes "get_at maze (py_int (x_position d), py_int (y_position d)) = Inr c"
  shows "\<exists>g'. rotate sense maze direction g d =
           Inr (d\<lparr>yaw := turned (yaw d) (fmul direction (speed d)),
                  lidars := map (add_angle (fmul direction (speed d))) (lidars d),
                  error_case := (if c = bounds_color d then error_case d + 1 else error_case d)\<rparr>,
                g')"
  using assms by (simp add: rotate_def Let_def check_bounds_def turned_def)

lemma rotate_off_raster:
  assumes "get_at maze (py_int (x_position d), py_int (y_position d)) = Inl e"
  shows "rotate sense maze direction g d = Inl e"
  using assms by (simp add: rotate_def Let_def check_bounds_def)

lemma foldl_add_angle:
  "relative_angle (foldl (\<lambda>l delta. add_angle delta l) l deltas)
     = foldl fadd (relative_angle l) deltas"
  by (induction deltas arbitrary: l) (simp_all add: add_angle_def)

lemma rotate_seq_on_raster:
  assumes "get_at maze (py_int (x_position d), py_int (y_position d)) = Inr c"
  shows "\<exists>d' g'. rotate_seq sense maze dirs g d = Inr (d', g')
           \<and> yaw d' = foldl turned (yaw d) (map (\<lambda>direction. fmul direction (speed d)) dirs)
           \<and> lidars d' = map (\<lambda>l. foldl (\<lambda>l delta. add_angle delta l) l
                                     (map (\<lambda>direction. fmul direction (speed d)) dirs)) (lidars d)
           \<and> speed d' = speed d \<and> x_position d' = x_position d \<and> y_position d' = y_position d"
  using assms
proof (induction dirs arbitrary: d g)
  case Nil
  then show ?case by simp
next
  case (Cons direction dirs)
  let ?d1 = "d\<lparr>yaw := turned (yaw d) (fmul direction (speed d)),
                lidars := map (add_angle (fmul direction (speed d))) (lidars d),
                error_case := (if c = bounds_color d then error_case d + 1 else error_case d)\<rparr>"
  from rotate_on_raster[OF Cons.prems] obtain g1
    where r: "rotate sense maze direction g d = Inr (?d1, g1)" by blast
  have "get_at maze (py_int (x_position ?d1), py_int (y_position ?d1)) = Inr c"
    using Cons.prems by simp
  from Cons.IH[OF this, of g1] obtain d' g'
    where s: "rotate_seq sense maze dirs g1 ?d1 = Inr (d', g')"
      and y: "yaw d' = foldl turned (yaw ?d1) (map (\<lambda>direction. fmul direction (speed ?d1)) dirs)"
      and l: "lidars d' = map (\<lambda>l. foldl (\<lambda>l delta. add_angle delta l) l
                                   (map (\<lambda>direction. fmul direction (speed ?d1)) dirs)) (lidars ?d1)"
      and o: "speed d' = speed ?d1" "x_position d' = x_position ?d1" "y_position d' = y_position ?d1"
    by blast
  have "rotate_seq sense maze (direction # dirs) g d = Inr (d', g')" using r s by simp
  moreover have "yaw d' = foldl turned (yaw d) (map (\<lambda>direction. fmul direction (speed d)) (direction # dirs))"
    using y by simp
  moreover have "lidars d' = map (\<lambda>l. foldl (\<lambda>l delta. add_angle delta l) l
                    (map (\<lambda>direction. fmul direction (speed d)) (direction # dirs))) (lidars d)"
    using l by simp
  ultimately show ?case using o by simp
qed

text \<open>
  C7, as the code has it.  Each \<^verbatim>\<open>rotate\<close> call adds the same delta \<^verbatim>\<open>direction * speed\<close>, by
  one float addition, to the yaw (before the yaw is normalised) and to the relative angle
  of every sensor; so after a run of calls the yaw and every relative angle are what adding
  the same list of deltas, one rounded addition per call, makes of their own starting
  values.  The two accumulated sums are rounded separately and need not be equal as
  numbers (the section on drift below gives a run where they differ).  The drone's own
  pixel is assumed to lie on the raster, so that the boundary check at the end of each call
  returns.
\<close>

theorem rotate_tracks_sensors:
  assumes "get_at maze (py_int (x_position d), py_int (y_position d)) = Inr c"
  shows "(\<exists>d1 g1. rotate sense maze direction g d = Inr (d1, g1)
            \<and> yaw d1 = turned (yaw d) (fmul direction (speed d))
            \<and> lidars d1 = map (add_angle (fmul direction (speed d))) (lidars d))
         \<and> (\<exists>d' g'. rotate_seq sense maze dirs g d = Inr (d', g')
            \<and> yaw d' = foldl turned (yaw d) (map (\<lambda>direction. fmul direction (speed d)) dirs)
            \<and> map relative_angle (lidars d')
                = map (\<lambda>l. foldl fadd (relative_angle l)
                               (map (\<lambda>direction. fmul direction (speed d)) dirs)) (lidars d))"
proof
  from rotate_on_raster[OF assms, of sense direction g]
  show "\<exists>d1 g1. rotate sense maze direction g d = Inr (d1, g1)
            \<and> yaw d1 = turned (yaw d) (fmul direction (speed d))
            \<and> lidars d1 = map (add_angle (fmul direction (speed d))) (lidars d)"
    by auto
next
  from rotate_seq_on_raster[OF assms, of sense dirs g] obtain d' g'
    where s: "rotate_seq sense maze dirs g d = Inr (d', g')"
      and y: "yaw d' = foldl turned (yaw d) (map (\<lambda>direction. fmul direction (speed d)) dirs)"
      and l: "lidars d' = map (\<lambda>l. foldl (\<lambda>l delta. add_angle delta l) l
                                   (map (\<lambda>direction. fmul direction (speed d)) dirs)) (lidars d)"
    by blast
  have "map relative_angle (lidars d')
          = map (\<lambda>l. foldl fadd (relative_angle l)
                         (map (\<lambda>direction. fmul direction (speed d)) dirs)) (lidars d)"
    unfolding l by (simp add: foldl_add_angle)
  with s y show "\<exists>d' g'. rotate_seq sense maze dirs g d = Inr (d', g')
            \<and> yaw d' = foldl turned (yaw d) (map (\<lambda>direction. fmul direction (speed d)) dirs)
            \<and> map relative_angle (lidars d')
                = map (\<lambda>l. foldl fadd (relative_angle l)
                               (map (\<lambda>direction. fmul direction (speed d)) dirs)) (lidars d)"
    by blast
qed

theorem rotate_tracks_sensors_witness:
  "get_at open_field
     (py_int (x_position (fresh_drone\<lparr>speed := 2,
                 lidars := [\<lparr>relative_angle = 30, mount_position = (50, 50), max_range = 5\<rparr>]\<rparr>)),
      py_int (y_position (fresh_drone\<lparr>speed := 2,
                 lidars := [\<lparr>relative_angle = 30, mount_position = (50, 50), max_range = 5\<rparr>]\<rparr>)))
     = Inr white
   \<and> (\<exists>d' g'. rotate_seq no_hit open_field [1, 1, 1, 1] []
          (fresh_drone\<lparr>speed := 2,
             lidars := [\<lparr>relative_angle = 30, mount_position = (50, 50), max_range = 5\<rparr>]\<rparr>)
          = Inr (d', g')
        \<and> yaw d' = 8 \<and> map relative_angle (lidars d') = [38])"
proof -
  let ?d = "fresh_drone\<lparr>speed := 2,
              lidars := [\<lparr>relative_angle = 30, mount_position = (50, 50), max_range = 5\<rparr>]\<rparr>"
  have p: "get_at open_field (py_int (x_position ?d), py_int (y_position ?d)) = Inr white"
    by (simp add: fresh_drone_def init_def get_at_def open_field_def)
  have y: "foldl turned (yaw ?d) (map (\<lambda>direction. fmul direction (speed ?d)) [1, 1, 1, 1]) = 8"
    by (simp add: fresh_drone_def init_def fmul_def fadd_def turned_def)
  have l: "map (\<lambda>l. foldl fadd (relative_angle l)
                   (map (\<lambda>direction. fmul direction (speed ?d)) [1, 1, 1, 1])) (lidars ?d) = [38]"
    by (simp add: fmul_def fadd_def)
  from rotate_tracks_sensors[OF p, of no_hit 1 "[]" "[1, 1, 1, 1]"] show ?thesis
    unfolding y l using p by blast
qed

section \<open>Rounding in the throttle and in the yaw\<close>

lemma rnd_2c: "rnd (3602879701896397 / 9007199254740992) = 3602879701896397 / 9007199254740992"
  by (rule rnd_nearI[where e = "- 54" and n = "7205759403792794", THEN trans]) simp_all

lemma rnd_3c: "rnd (10808639105689191 / 18014398509481984) = 1351079888211149 / 2251799813685248"
  by (rule rnd_eqI[where e = "- 53" and n = "5404319552844596", THEN trans])
     (simp_all add: round_half_even_def Let_def)

lemma rnd_3c_less_c: "rnd (7205759403792795 / 18014398509481984) = 7205759403792795 / 18014398509481984"
  by (rule rnd_nearI[where e = "- 54" and n = "7205759403792795", THEN trans]) simp_all

lemma rnd_3c_less_2c: "rnd (1801439850948199 / 9007199254740992) = 1801439850948199 / 9007199254740992"
  by (rule rnd_nearI[where e = "- 55" and n = "7205759403792796", THEN trans]) simp_all

lemma rnd_3c_less_3c: "rnd (1 / 18014398509481984) = 1 / 18014398509481984"
  by (rule rnd_nearI[where e = "- 106" and n = "4503599627370496", THEN trans]) simp_all

lemma rnd_neg_tiny: "rnd (- (1 / 18014398509481984)) = - (1 / 18014398509481984)"
  by (rule rnd_nearI[where e = "- 106" and n = "- 4503599627370496", THEN trans]) simp_all

lemma rnd_360_less_tiny: "rnd (6485183463413514239 / 18014398509481984) = 360"
  by (rule rnd_nearI[where e = "- 44" and n = "6333186975989760", THEN trans]) simp_all

lemma speed_backward:
  "speed (backward 1 d) =
     (if 0 < rnd (speed d - 3602879701896397 / 18014398509481984)
      then rnd (speed d - 3602879701896397 / 18014398509481984)
      else 3602879701896397 / 18014398509481984)"
  by (simp add: backward_def Let_def fsub_def fmul_def lit_fifth rnd_fifth)

text \<open>What \<^verbatim>\<open>backward\<close> does guarantee: the speed it leaves is positive.\<close>

lemma backward_positive: "0 < speed (backward acc d)"
  by (simp add: backward_def Let_def lit_fifth)

lemma three_forward:
  assumes "speed d = 0"
  shows "speed (forward 1 (forward 1 (forward 1 d))) = 1351079888211149 / 2251799813685248"
proof -
  have 1: "speed (forward 1 d) = 3602879701896397 / 18014398509481984"
    using assms by (simp add: speed_forward rnd_fifth)
  have 2: "speed (forward 1 (forward 1 d)) = 3602879701896397 / 9007199254740992"
    by (simp add: speed_forward[of "forward 1 d"] 1 rnd_2c)
  show ?thesis
    by (simp add: speed_forward[of "forward 1 (forward 1 d)"] 2 rnd_3c)
qed

lemma three_backward:
  assumes "speed d = 1351079888211149 / 2251799813685248"
  shows "speed (backward 1 d) = 7205759403792795 / 18014398509481984"
    and "speed (backward 1 (backward 1 d)) = 1801439850948199 / 9007199254740992"
    and "speed (backward 1 (backward 1 (backward 1 d))) = 1 / 18014398509481984"
proof -
  show 1: "speed (backward 1 d) = 7205759403792795 / 18014398509481984"
    by (simp only: speed_backward assms) (simp add: rnd_3c_less_c)
  show 2: "speed (backward 1 (backward 1 d)) = 1801439850948199 / 9007199254740992"
    by (simp add: speed_backward[of "backward 1 d"] 1 rnd_3c_less_2c)
  show "speed (backward 1 (backward 1 (backward 1 d))) = 1 / 18014398509481984"
    by (simp add: speed_backward[of "backward 1 (backward 1 d)"] 2 rnd_3c_less_3c)
qed

text \<open>
  C1 on the code.  Three \<^verbatim>\<open>forward()\<close> calls take a fresh drone to the speed
  \<^verbatim>\<open>0.6000000000000001\<close>; three \<^verbatim>\<open>backward()\<close> calls then leave \<^verbatim>\<open>0.4000000000000001\<close>,
  \<^verbatim>\<open>0.20000000000000007\<close> and \<open>2 powi - 54\<close>, about \<^verbatim>\<open>5.55e-17\<close>: the difference is positive,
  so the test \<^verbatim>\<open>n_speed > 0\<close> keeps it, and the speed is below \<^verbatim>\<open>0.2\<close>.
\<close>

theorem backward_below_floor:
  "speed (forward 1 (forward 1 (forward 1 fresh_drone))) = 1351079888211149 / 2251799813685248
   \<and> speed (backward 1 (backward 1 (backward 1
              (forward 1 (forward 1 (forward 1 fresh_drone)))))) = 1 / 2 ^ 54
   \<and> speed (backward 1 (backward 1 (backward 1
              (forward 1 (forward 1 (forward 1 fresh_drone)))))) < rnd (2 / 10)"
proof -
  have 0: "speed fresh_drone = 0" by (simp add: fresh_drone_def init_def)
  note f = three_forward[OF 0]
  note b = three_backward(3)[OF f]
  show ?thesis by (simp add: f b lit_fifth)
qed

text \<open>
  C4 on the code.  At yaw 0 and the speed \<open>2 powi - 54\<close> that the run above reaches, a
  \<^verbatim>\<open>rotate\<close> call to the left computes the yaw \<open>- (2 powi - 54)\<close>, which is negative, and then
  \<^verbatim>\<open>360 + self.yaw\<close>, which rounds to \<^verbatim>\<open>360.0\<close>: the yaw is 360, outside \<open>[0, 360)\<close>.
\<close>

theorem rotate_reaches_360:
  "rotate no_hit open_field (- 1) [] (fresh_drone\<lparr>speed := 1 / 2 ^ 54\<rparr>)
     = Inr (fresh_drone\<lparr>speed := 1 / 2 ^ 54, yaw := 360\<rparr>, [])
   \<and> \<not> yaw (fresh_drone\<lparr>speed := 1 / 2 ^ 54, yaw := 360\<rparr>) < 360"
proof -
  have t: "turned 0 (fmul (- 1) (1 / 18014398509481984)) = 360"
    by (simp add: turned_def fmul_def fadd_def rnd_neg_tiny rnd_360_less_tiny)
  show ?thesis
    by (simp add: rotate_def Let_def check_bounds_def get_at_def open_field_def
                  fresh_drone_def init_def white_def black_def t[unfolded turned_def])
qed

section \<open>Drift between the yaw and the sensors\<close>

lemma rnd_30_c: "rnd (544034834986355917 / 18014398509481984) = 8500544296661811 / 281474976710656"
  by (rule rnd_nearI[where e = "- 48" and n = "8500544296661811", THEN trans]) simp_all

lemma rnd_30_2c: "rnd (547637714688252301 / 18014398509481984) = 4278419646001971 / 140737488355328"
  by (rule rnd_nearI[where e = "- 48" and n = "8556839292003942", THEN trans]) simp_all

lemma rnd_30_3c: "rnd (551240594390148685 / 18014398509481984) = 8613134287346073 / 281474976710656"
  by (rule rnd_nearI[where e = "- 48" and n = "8613134287346073", THEN trans]) simp_all

lemma foldl_keep: "foldl (\<lambda>g l. g) g xs = g"
  by (induction xs) simp_all

lemma rotate_right_slow:
  assumes "speed d = 3602879701896397 / 18014398509481984"
    and "x_position d = 50" "y_position d = 50" "bounds_color d = black"
    and "0 \<le> fadd (yaw d) (3602879701896397 / 18014398509481984)"
    and "fadd (yaw d) (3602879701896397 / 18014398509481984) < 360"
  shows "rotate no_hit open_field 1 g d
           = Inr (d\<lparr>yaw := fadd (yaw d) (3602879701896397 / 18014398509481984),
                    lidars := map (add_angle (3602879701896397 / 18014398509481984)) (lidars d)\<rparr>,
                  g)"
proof -
  have m: "fmul 1 (speed d) = 3602879701896397 / 18014398509481984"
    unfolding fmul_def assms(1) by (simp add: rnd_fifth)
  show ?thesis
    using assms(2-6)
    by (simp add: rotate_def Let_def check_bounds_def get_at_def open_field_def no_hit_def
                  white_def black_def m foldl_keep)
qed

text \<open>
  C7 as stated fails.  A drone at yaw 0 with the speed \<^verbatim>\<open>0.2\<close> and a sensor at 30 degrees turns
  right three times.  The yaw accumulates \<^verbatim>\<open>0.6000000000000001\<close>; the sensor ends at
  \<^verbatim>\<open>30.599999999999998\<close>, so it has accumulated \<^verbatim>\<open>0.5999999999999979\<close>: the same three deltas
  were added to both, but each float addition rounds at the magnitude of its own sum.
\<close>

theorem sensor_drift_counterexample:
  "rotate_seq no_hit open_field [1, 1, 1] []
     (fresh_drone\<lparr>speed := rnd (2 / 10),
        lidars := [\<lparr>relative_angle = 30, mount_position = (50, 50), max_range = 100\<rparr>]\<rparr>)
   = Inr (fresh_drone\<lparr>speed := rnd (2 / 10),
            lidars := [\<lparr>relative_angle = 8613134287346073 / 281474976710656,
                       mount_position = (50, 50), max_range = 100\<rparr>],
            yaw := 1351079888211149 / 2251799813685248\<rparr>, [])
   \<and> (8613134287346073 / 281474976710656 :: rat) - 30 \<noteq> 1351079888211149 / 2251799813685248 - 0"
proof -
  let ?c = "3602879701896397 / 18014398509481984 :: rat"
  let ?l = "\<lambda>a. [\<lparr>relative_angle = a, mount_position = (50::int, 50::int), max_range = 100\<rparr>]"
  let ?d = "\<lambda>y a. fresh_drone\<lparr>speed := ?c, lidars := ?l a, yaw := y\<rparr>"
  have 1: "rotate no_hit open_field 1 [] (?d 0 30)
             = Inr (?d ?c (8500544296661811 / 281474976710656), [])"
    by (subst rotate_right_slow)
       (simp_all add: fresh_drone_def init_def fadd_def rnd_fifth add_angle_def rnd_30_c)
  have 2: "rotate no_hit open_field 1 [] (?d ?c (8500544296661811 / 281474976710656))
             = Inr (?d (3602879701896397 / 9007199254740992)
                       (4278419646001971 / 140737488355328), [])"
    by (subst rotate_right_slow)
       (simp_all add: fresh_drone_def init_def fadd_def rnd_2c add_angle_def rnd_30_2c)
  have 3: "rotate no_hit open_field 1 []
             (?d (3602879701896397 / 9007199254740992) (4278419646001971 / 140737488355328))
             = Inr (?d (1351079888211149 / 2251799813685248)
                       (8613134287346073 / 281474976710656), [])"
    by (subst rotate_right_slow)
       (simp_all add: fresh_drone_def init_def fadd_def rnd_3c add_angle_def rnd_30_3c)
  have s: "fresh_drone\<lparr>speed := rnd (2 / 10), lidars := ?l 30\<rparr> = ?d 0 30"
    by (simp add: fresh_drone_def init_def lit_fifth)
  have e: "fresh_drone\<lparr>speed := rnd (2 / 10),
             lidars := ?l (8613134287346073 / 281474976710656),
             yaw := 1351079888211149 / 2251799813685248\<rparr>
           = ?d (1351079888211149 / 2251799813685248) (8613134287346073 / 281474976710656)"
    by (simp add: lit_fifth)
  show ?thesis unfolding s e by (simp add: 1 2 3)
qed

section \<open>The battery field\<close>

lemma digit_is_digit: "k < 10 \<Longrightarrow> is_digit (digit k) \<and> digit k \<noteq> CHR ''.''"
proof -
  assume "k < 10"
  then have "k = 0 \<or> k = 1 \<or> k = 2 \<or> k = 3 \<or> k = 4 \<or> k = 5 \<or> k = 6
    \<or> k = 7 \<or> k = 8 \<or> k = 9" by presburger
  then show ?thesis by (auto simp: digit_def is_digit_def)
qed

lemma dec_one_digit: "n < 10 \<Longrightarrow> dec n = [digit n]"
  by (subst dec.simps) simp

lemma dec_two_digits: "10 \<le> n \<Longrightarrow> n < 100 \<Longrightarrow> dec n = [digit (n div 10), digit (n mod 10)]"
  by (subst dec.simps) (simp add: dec_one_digit)

lemma fmt_0d_2:
  assumes "0 \<le> i" "i < 100"
  shows "\<exists>a b. fmt_0d 2 i = [a, b] \<and> is_digit a \<and> is_digit b \<and> a \<noteq> CHR ''.'' \<and> b \<noteq> CHR ''.''"
proof (cases "nat i < 10")
  case True
  then have "fmt_0d 2 i = [CHR ''0'', digit (nat i)]"
    by (simp add: fmt_0d_def dec_one_digit)
  moreover have "is_digit CHR ''0''" by (simp add: is_digit_def)
  ultimately show ?thesis using digit_is_digit[OF True] by simp
next
  case False
  then have n: "10 \<le> nat i" "nat i < 100" using assms by simp_all
  have "fmt_0d 2 i = [digit (nat i div 10), digit (nat i mod 10)]"
    using n by (simp add: fmt_0d_def dec_two_digits)
  moreover have "nat i div 10 < 10" "nat i mod 10 < 10" using n by simp_all
  ultimately show ?thesis using digit_is_digit by metis
qed

lemma micro_rounding:
  assumes "0 \<le> f" "f < 1"
  shows "0 \<le> round_half_even (fmul f 1000000) \<and> round_half_even (fmul f 1000000) \<le> 1000000"
proof -
  define x where "x = f * 1000000"
  have x: "0 \<le> x" "x < 1000000" using assms by (simp_all add: x_def)
  have "\<bar>x\<bar> < 2 powi (19 + 1)" using x by simp
  then have "\<bar>rnd x - x\<bar> \<le> 2 powi (19 - 53)" by (rule rnd_error) simp
  moreover have "(2::rat) powi (19 - 53) \<le> 1 / 4" by simp
  ultimately have u: "rnd x < 1000000 + 1 / 4" using x by linarith
  have l: "0 \<le> rnd x" using x(1) by (rule rnd_nonneg)
  have e: "\<bar>of_int (round_half_even (rnd x)) - rnd x\<bar> \<le> 1 / 2" by (rule round_half_even_error)
  have "(of_int (round_half_even (rnd x)) :: rat) < 1000001" using e u by linarith
  then have "(of_int (round_half_even (rnd x)) :: rat) < of_int 1000001" by simp
  then have hi: "round_half_even (rnd x) < 1000001" by (simp only: of_int_less_iff)
  have "- 1 < (of_int (round_half_even (rnd x)) :: rat)" using e l by linarith
  then have "(of_int (- 1) :: rat) < of_int (round_half_even (rnd x))" by simp
  then have lo: "- 1 < round_half_even (rnd x)" by (simp only: of_int_less_iff)
  show ?thesis using lo hi by (simp add: fmul_def x_def)
qed

lemma timedelta_in_budget:
  assumes "0 \<le> t" "t \<le> 300"
  shows "days (timedelta_of_seconds t) = 0
         \<and> 0 \<le> seconds (timedelta_of_seconds t) \<and> seconds (timedelta_of_seconds t) \<le> 300"
proof -
  define w where "w = \<lfloor>t\<rfloor>"
  define r where "r = round_half_even (fmul (t - of_int w) 1000000)"
  have w: "0 \<le> w" "w \<le> 300" using assms by (simp_all add: w_def floor_le_iff le_floor_iff) 
  have f: "0 \<le> t - of_int w" "t - of_int w < 1"
    using floor_correct[of t] by (simp_all add: w_def)
  from micro_rounding[OF f] have r: "0 \<le> r" "r \<le> 1000000" by (simp_all add: r_def)
  have r300: "w = 300 \<Longrightarrow> r = 0"
  proof -
    assume "w = 300"
    then have "t - of_int w = 0" using assms(2) f(1) by simp
    then show "r = 0" by (simp add: r_def fmul_def)
  qed
  define us where "us = w * 1000000 + r"
  have us0: "0 \<le> us" using w r by (simp add: us_def)
  have us1: "us \<le> 300000000"
  proof (cases "w = 300")
    case True
    with r300 show ?thesis by (simp add: us_def)
  next
    case False
    with w have "w \<le> 299" by simp
    with r show ?thesis unfolding us_def by linarith
  qed
  note us = us0 us1
  have td: "timedelta_of_seconds t =
              \<lparr>days = us div 86400000000, seconds = us mod 86400000000 div 1000000,
               microseconds = us mod 1000000\<rparr>"
    using assms(1) by (simp add: timedelta_of_seconds_def Let_def py_int_def w_def r_def us_def)
  have "us div 86400000000 = 0" using us by simp
  moreover have "us mod 86400000000 = us" using us by simp
  moreover have "0 \<le> us div 1000000" "us div 1000000 \<le> 300" using us by simp_all
  ultimately show ?thesis by (simp add: td)
qed

lemma split_head_plain: "\<forall>c\<in>set s. c \<noteq> sep \<Longrightarrow> split_head sep s = s"
  by (simp add: split_head_def)

lemma split_head_append: "\<forall>c\<in>set s. c \<noteq> sep \<Longrightarrow> split_head sep (s @ sep # rest) = s"
  by (simp add: split_head_def takeWhile_tail)

lemma battery_format:
  assumes "days td = 0" "0 \<le> seconds td" "seconds td \<le> 300"
  shows "is_H_MM_SS (split_head CHR ''.'' (timedelta_str td))"
proof -
  define mm where "mm = seconds td div 60"
  define ss where "ss = seconds td mod 60"
  have mm: "0 \<le> mm" "mm \<le> 5" using assms by (simp_all add: mm_def)
  have ss: "0 \<le> ss" "ss < 60" by (simp_all add: ss_def)
  have hh: "mm div 60 = 0" "mm mod 60 = mm" using mm by simp_all
  from fmt_0d_2[of mm] mm obtain a b
    where m2: "fmt_0d 2 mm = [a, b]" "is_digit a" "is_digit b" "a \<noteq> CHR ''.''" "b \<noteq> CHR ''.''"
    by auto
  from fmt_0d_2[of ss] ss obtain c e
    where s2: "fmt_0d 2 ss = [c, e]" "is_digit c" "is_digit e" "c \<noteq> CHR ''.''" "e \<noteq> CHR ''.''"
    by auto
  define s where "s = [CHR ''0'', CHR '':'', a, b, CHR '':'', c, e]"
  have f0: "fmt_d 0 = ''0''" by (simp add: fmt_d_def dec_one_digit digit_def)
  have str: "timedelta_str td =
               (if microseconds td \<noteq> 0 then s @ CHR ''.'' # fmt_0d 6 (microseconds td) else s)"
    using assms(1)
    by (simp add: timedelta_str_def Let_def mm_def[symmetric] ss_def[symmetric] hh f0 m2 s2 s_def)
  have nodot: "\<forall>x\<in>set s. x \<noteq> CHR ''.''" using m2 s2 by (simp add: s_def)
  have "split_head CHR ''.'' (timedelta_str td) = s"
    unfolding str using split_head_plain[OF nodot] split_head_append[OF nodot] by simp
  moreover have "is_H_MM_SS s"
    using m2 s2 by (simp add: s_def is_H_MM_SS_def is_digit_def)
  ultimately show ?thesis by simp
qed

text \<open>
  C9.  For a drone with its three sensors and a time budget in \<open>[0, MAX_FLIGHT_TIME]\<close> the
  snapshot is produced and its battery field has the format \<open>H:MM:SS\<close>; whenever a snapshot
  is produced for such a budget, its battery field has that format.
\<close>

theorem battery_is_H_MM_SS:
  assumes "0 \<le> time_in_air d" "time_in_air d \<le> MAX_FLIGHT_TIME"
  shows "(3 \<le> length (lidars d) \<longrightarrow> (\<exists>i. get_info_dict d = Inr i \<and> is_H_MM_SS (battery i)))
         \<and> (\<forall>i. get_info_dict d = Inr i \<longrightarrow> is_H_MM_SS (battery i))"
proof -
  have "time_in_air d \<le> 300" using assms(2) by (simp add: MAX_FLIGHT_TIME_def)
  from timedelta_in_budget[OF assms(1) this]
  have "is_H_MM_SS (split_head CHR ''.'' (timedelta_str (timedelta_of_seconds (time_in_air d))))"
    by (intro battery_format) simp_all
  then show ?thesis by (auto simp: get_info_dict_def split: if_splits)
qed

lemma battery_of_full_budget:
  "split_head CHR ''.'' (timedelta_str (timedelta_of_seconds 300)) = ''0:05:00''"
  by (simp add: timedelta_of_seconds_def Let_def fmul_def timedelta_str_def fmt_d_def fmt_0d_def
                dec_one_digit digit_def split_head_def)

theorem battery_is_H_MM_SS_witness:
  "0 \<le> time_in_air (init 50 50 white black three_lidars)
   \<and> time_in_air (init 50 50 white black three_lidars) \<le> MAX_FLIGHT_TIME
   \<and> 3 \<le> length (lidars (init 50 50 white black three_lidars))
   \<and> (\<exists>i. get_info_dict (init 50 50 white black three_lidars) = Inr i
           \<and> battery i = ''0:05:00'' \<and> is_H_MM_SS (battery i))"
proof -
  let ?d = "init 50 50 white black three_lidars"
  have h: "0 \<le> time_in_air ?d" "time_in_air ?d \<le> MAX_FLIGHT_TIME" "3 \<le> length (lidars ?d)"
    by (simp_all add: init_def MAX_FLIGHT_TIME_def three_lidars_def)
  from battery_is_H_MM_SS[OF h(1,2)] h(3) obtain i
    where i: "get_info_dict ?d = Inr i" "is_H_MM_SS (battery i)" by blast
  have "battery i = ''0:05:00''"
    using i(1) h(3) battery_of_full_budget
    by (auto simp: get_info_dict_def init_def MAX_FLIGHT_TIME_def split: if_splits)
  with i h show ?thesis by blast
qed

section \<open>The countdown in floats\<close>

lemma handle_keys_idle:
  assumes "get_at maze (py_int (x_position d), py_int (y_position d)) = Inr c"
  shows "\<exists>b d' g'. handle_keys m sense maze g no_key d = Inr (b, d', g')
           \<and> time_in_air d' = ticked (time_in_air d)
           \<and> x_position d' = x_position d \<and> y_position d' = y_position d"
  using assms
  by (auto simp: handle_keys_def Let_def check_bounds_def no_key_def ticked_def)

lemma handle_keys_seq_idle:
  assumes "get_at maze (py_int (x_position d), py_int (y_position d)) = Inr c"
  shows "\<exists>d' g'. handle_keys_seq m sense maze (replicate n no_key) g d = Inr (d', g')
           \<and> time_in_air d' = (ticked ^^ n) (time_in_air d)
           \<and> x_position d' = x_position d \<and> y_position d' = y_position d"
  using assms
proof (induction n arbitrary: d g)
  case 0
  then show ?case by simp
next
  case (Suc n)
  from handle_keys_idle[OF Suc.prems, of m sense g] obtain b d1 g1
    where h: "handle_keys m sense maze g no_key d = Inr (b, d1, g1)"
      and t: "time_in_air d1 = ticked (time_in_air d)"
      and p: "x_position d1 = x_position d" "y_position d1 = y_position d"
    by blast
  have "get_at maze (py_int (x_position d1), py_int (y_position d1)) = Inr c"
    using Suc.prems p by simp
  from Suc.IH[OF this, of g1] obtain d' g'
    where s: "handle_keys_seq m sense maze (replicate n no_key) g1 d1 = Inr (d', g')"
      and t': "time_in_air d' = (ticked ^^ n) (time_in_air d1)"
      and p': "x_position d' = x_position d1" "y_position d' = y_position d1"
    by blast
  have "handle_keys_seq m sense maze (replicate (Suc n) no_key) g d = Inr (d', g')"
    using h s by simp
  moreover have "time_in_air d' = (ticked ^^ Suc n) (time_in_air d)"
    using t t' by (simp add: funpow_swap1)
  ultimately show ?case using p p' by simp
qed

lemma ticked_binade_step:
  assumes e: "- 1074 \<le> e"
    and C: "\<bar>(5764607523034235 / 144115188075855872 :: rat) / 2 powi e - of_int C\<bar> < 1 / 2" "0 \<le> C"
    and lo: "2 ^ 52 < T - C" and hi: "T - C < 2 ^ 53"
  shows "ticked (of_int T * 2 powi e) = of_int (T - C) * 2 powi e"
proof -
  define u :: rat where "u = 2 powi e"
  define c :: rat where "c = 5764607523034235 / 144115188075855872"
  define y where "y = of_int T * u - c"
  have upos: "0 < u" by (simp add: u_def)
  have "(0::int) < 2 ^ 52" by simp
  then have Tpos: "0 < T" using lo C(2) by linarith
  then have xpos: "0 < of_int T * u" using upos by simp
  have yu: "y / u = of_int T - c / u" using upos by (simp add: y_def field_simps)
  have C': "\<bar>c / u - of_int C\<bar> < 1 / 2" using C(1) by (simp only: c_def u_def)
  have near: "\<bar>y / u - of_int (T - C)\<bar> < 1 / 2"
    unfolding yu of_int_diff using C' by linarith
  have "2 ^ 52 + 1 \<le> T - C" using lo by simp
  then have "(of_int (2 ^ 52 + 1) :: rat) \<le> of_int (T - C)" by (simp only: of_int_le_iff)
  then have l1: "(2 ^ 52 + 1 :: rat) \<le> of_int (T - C)" by simp
  have "T - C \<le> 2 ^ 53 - 1" using hi by simp
  then have "(of_int (T - C) :: rat) \<le> of_int (2 ^ 53 - 1)" by (simp only: of_int_le_iff)
  then have h1: "(of_int (T - C) :: rat) \<le> 2 ^ 53 - 1" by simp
  have b: "2 ^ 52 < y / u" "y / u < 2 ^ 53" using near l1 h1 by linarith+
  then have b': "2 ^ 52 * u < y" "y < 2 ^ 53 * u" using upos by (simp_all add: field_simps)
  have "0 < 2 ^ 52 * u" using upos by simp
  then have ypos: "0 < y" using b'(1) by linarith
  have p52: "(2::rat) powi (e + 52) = 2 ^ 52 * u" by (simp add: u_def power_int_add)
  have p53: "(2::rat) powi (e + 53) = 2 ^ 53 * u" by (simp add: u_def power_int_add)
  have "rnd y = of_int (T - C) * 2 powi e"
  proof (rule rnd_nearI)
    show "2 powi (e + 52) \<le> \<bar>y\<bar>" using b'(1) ypos p52 by simp
    show "\<bar>y\<bar> < 2 powi (e + 53)" using b'(2) ypos p53 by simp
    show "- 1074 \<le> e" by (rule e)
    show "\<bar>y / 2 powi e - of_int (T - C)\<bar> < 1 / 2" using near by (simp add: u_def)
  qed
  moreover have "ticked (of_int T * u) = rnd (of_int T * u - c)"
    unfolding ticked_def fsub_def fdiv_1_25 c_def using xpos by (simp only: if_True)
  then have "ticked (of_int T * 2 powi e) = rnd y"
    by (simp only: y_def u_def)
  ultimately show ?thesis by simp
qed

lemma ticked_binade_run:
  assumes e: "- 1074 \<le> e"
    and C: "\<bar>(5764607523034235 / 144115188075855872 :: rat) / 2 powi e - of_int C\<bar> < 1 / 2" "0 \<le> C"
    and lo: "2 ^ 52 < T - int n * C" and hi: "T - C < 2 ^ 53"
  shows "(ticked ^^ n) (of_int T * 2 powi e) = of_int (T - int n * C) * 2 powi e"
proof -
  have "k \<le> n \<Longrightarrow> (ticked ^^ k) (of_int T * 2 powi e) = of_int (T - int k * C) * 2 powi e" for k
  proof (induction k)
    case 0
    show ?case by simp
  next
    case (Suc k)
    then have ih: "(ticked ^^ k) (of_int T * 2 powi e) = of_int (T - int k * C) * 2 powi e"
      by simp
    have "int (Suc k) * C \<le> int n * C" using Suc.prems C(2) by (intro mult_right_mono) simp_all
    then have l: "2 ^ 52 < (T - int k * C) - C" using lo by (simp add: algebra_simps)
    have "0 \<le> int k * C" using C(2) by simp
    then have h: "(T - int k * C) - C < 2 ^ 53" using hi by linarith
    have "ticked (of_int (T - int k * C) * 2 powi e) = of_int ((T - int k * C) - C) * 2 powi e"
      using e C l h by (rule ticked_binade_step)
    then show ?case by (simp add: ih algebra_simps)
  qed
  then show ?thesis by simp
qed

lemma funpow_chain:
  assumes "(f ^^ m) x = y" "(f ^^ n) y = z" "m + n = k"
  shows "(f ^^ k) x = z"
proof -
  have "(f ^^ (n + m)) x = (f ^^ n) ((f ^^ m) x)" by (simp add: funpow_add)
  with assms show ?thesis by (simp add: add.commute)
qed

lemma countdown_0_1099: "(ticked ^^ 1099) (300) = 4504303314811877 / 17592186044416"
  using ticked_binade_run[of "- 44" 703687441777 5277655813324800 1099] by simp

lemma countdown_1099_4300: "(ticked ^^ 3201) (4504303314811877 / 17592186044416) = 4503599627370601 / 35184372088832"
  using ticked_binade_run[of "- 45" 1407374883553 9008606629623754 3201] by simp

lemma countdown_4300_5899: "(ticked ^^ 1599) (4503599627370601 / 35184372088832) = 4506414377137109 / 70368744177664"
  using ticked_binade_run[of "- 46" 2814749767107 9007199254741202 1599] by simp

lemma countdown_5899_6699: "(ticked ^^ 800) (4506414377137109 / 70368744177664) = 2254614563451909 / 70368744177664"
  using ticked_binade_run[of "- 47" 5629499534213 9012828754274218 800] by simp

lemma countdown_6699_7099: "(ticked ^^ 400) (2254614563451909 / 70368744177664) = 1128714656609309 / 70368744177664"
  using ticked_binade_run[of "- 48" 11258999068426 9018458253807636 400] by simp

lemma countdown_7099_7299: "(ticked ^^ 200) (1128714656609309 / 70368744177664) = 565764703188009 / 70368744177664"
  using ticked_binade_run[of "- 49" 22517998136852 9029717252874472 200] by simp

lemma countdown_7299_7399: "(ticked ^^ 100) (565764703188009 / 70368744177664) = 1137158905909411 / 281474976710656"
  using ticked_binade_run[of "- 50" 45035996273705 9052235251008144 100] by simp

lemma countdown_7399_7449: "(ticked ^^ 50) (1137158905909411 / 281474976710656) = 1148417904976197 / 562949953421312"
  using ticked_binade_run[of "- 51" 90071992547410 9097271247275288 50] by simp

lemma countdown_7449_7474: "(ticked ^^ 25) (1148417904976197 / 562949953421312) = 1170935903109769 / 1125899906842624"
  using ticked_binade_run[of "- 52" 180143985094820 9187343239809576 25] by simp

lemma countdown_7474_7487: "(ticked ^^ 13) (1170935903109769 / 1125899906842624) = 146366987887901 / 281474976710656"
  using ticked_binade_run[of "- 53" 360287970189640 9367487224878152 13] by simp

lemma countdown_7487_7493: "(ticked ^^ 6) (146366987887901 / 281474976710656) = 2522015791274995 / 9007199254740992"
  using ticked_binade_run[of "- 54" 720575940379279 9367487224825664 6] by simp

lemma countdown_7493_7496: "(ticked ^^ 3) (2522015791274995 / 9007199254740992) = 5764607522824303 / 36028797018963968"
  using ticked_binade_run[of "- 55" 1441151880758559 10088063165099980 3] by simp

lemma rnd_countdown_7496_7497: "rnd (17293822568262977 / 144115188075855872) = 270215977629109 / 2251799813685248"
  by (rule rnd_eqI[where e = "- 56" and n = "8646911284131488", THEN trans])
     (simp_all add: round_half_even_def Let_def)

lemma countdown_7496_7497: "(ticked ^^ 1) (5764607522824303 / 36028797018963968) = 270215977629109 / 2251799813685248"
  by (simp add: ticked_def fsub_def fdiv_1_25 rnd_countdown_7496_7497)

lemma rnd_countdown_7497_7498: "rnd (11529215045228741 / 144115188075855872) = 2882303761307185 / 36028797018963968"
  by (rule rnd_eqI[where e = "- 56" and n = "5764607522614370", THEN trans])
     (simp_all add: round_half_even_def Let_def)

lemma countdown_7497_7498: "(ticked ^^ 1) (270215977629109 / 2251799813685248) = 2882303761307185 / 36028797018963968"
  by (simp add: ticked_def fsub_def fdiv_1_25 rnd_countdown_7497_7498)

lemma rnd_countdown_7498_7499: "rnd (5764607522194505 / 144115188075855872) = 5764607522194505 / 144115188075855872"
  by (rule rnd_nearI[where e = "- 57" and n = "5764607522194505", THEN trans]) simp_all

lemma countdown_7498_7499: "(ticked ^^ 1) (2882303761307185 / 36028797018963968) = 5764607522194505 / 144115188075855872"
  by (simp add: ticked_def fsub_def fdiv_1_25 rnd_countdown_7498_7499)

lemma rnd_countdown_7499_7500: "rnd (- (419865 / 72057594037927936)) = - (419865 / 72057594037927936)"
  by (rule rnd_nearI[where e = "- 90" and n = "- 7213225774940160", THEN trans]) simp_all

lemma countdown_7499_7500: "(ticked ^^ 1) (5764607522194505 / 144115188075855872) = - (419865 / 72057594037927936)"
  by (simp add: ticked_def fsub_def fdiv_1_25 rnd_countdown_7499_7500)
lemma countdown_0_4300: "(ticked ^^ 4300) 300 = 4503599627370601 / 35184372088832"
  by (rule funpow_chain[OF countdown_0_1099 countdown_1099_4300]) simp

lemma countdown_0_5899: "(ticked ^^ 5899) 300 = 4506414377137109 / 70368744177664"
  by (rule funpow_chain[OF countdown_0_4300 countdown_4300_5899]) simp

lemma countdown_0_6699: "(ticked ^^ 6699) 300 = 2254614563451909 / 70368744177664"
  by (rule funpow_chain[OF countdown_0_5899 countdown_5899_6699]) simp

lemma countdown_0_7099: "(ticked ^^ 7099) 300 = 1128714656609309 / 70368744177664"
  by (rule funpow_chain[OF countdown_0_6699 countdown_6699_7099]) simp

lemma countdown_0_7299: "(ticked ^^ 7299) 300 = 565764703188009 / 70368744177664"
  by (rule funpow_chain[OF countdown_0_7099 countdown_7099_7299]) simp

lemma countdown_0_7399: "(ticked ^^ 7399) 300 = 1137158905909411 / 281474976710656"
  by (rule funpow_chain[OF countdown_0_7299 countdown_7299_7399]) simp

lemma countdown_0_7449: "(ticked ^^ 7449) 300 = 1148417904976197 / 562949953421312"
  by (rule funpow_chain[OF countdown_0_7399 countdown_7399_7449]) simp

lemma countdown_0_7474: "(ticked ^^ 7474) 300 = 1170935903109769 / 1125899906842624"
  by (rule funpow_chain[OF countdown_0_7449 countdown_7449_7474]) simp

lemma countdown_0_7487: "(ticked ^^ 7487) 300 = 146366987887901 / 281474976710656"
  by (rule funpow_chain[OF countdown_0_7474 countdown_7474_7487]) simp

lemma countdown_0_7493: "(ticked ^^ 7493) 300 = 2522015791274995 / 9007199254740992"
  by (rule funpow_chain[OF countdown_0_7487 countdown_7487_7493]) simp

lemma countdown_0_7496: "(ticked ^^ 7496) 300 = 5764607522824303 / 36028797018963968"
  by (rule funpow_chain[OF countdown_0_7493 countdown_7493_7496]) simp

lemma countdown_0_7497: "(ticked ^^ 7497) 300 = 270215977629109 / 2251799813685248"
  by (rule funpow_chain[OF countdown_0_7496 countdown_7496_7497]) simp

lemma countdown_0_7498: "(ticked ^^ 7498) 300 = 2882303761307185 / 36028797018963968"
  by (rule funpow_chain[OF countdown_0_7497 countdown_7497_7498]) simp

lemma countdown_0_7499: "(ticked ^^ 7499) 300 = 5764607522194505 / 144115188075855872"
  by (rule funpow_chain[OF countdown_0_7498 countdown_7498_7499]) simp

lemma countdown_0_7500: "(ticked ^^ 7500) 300 = - (419865 / 72057594037927936)"
  by (rule funpow_chain[OF countdown_0_7499 countdown_7499_7500]) simp

lemma countdown_7500_7501: "ticked (- (419865 / 72057594037927936)) = 0"
  by (simp add: ticked_def fsub_def)

text \<open>
  C3 on the code.  A fresh drone (budget 300) idles on a free pixel of a field without
  walls.  The float nearest to \<^verbatim>\<open>1 / 25\<close> is not one twenty-fifth and every subtraction
  rounds, so the budget does not pass through 0: after 7499 calls it is about
  \<^verbatim>\<open>0.0399999999941732\<close>, still positive, and the 7500th call leaves
  \<open>- 419865 / 2 ^ 56\<close>, about \<^verbatim>\<open>-5.83e-12\<close>.  That value is not 0, so the call does not
  land the drone; only the call after it resets the budget to 0.
\<close>

theorem budget_goes_negative:
  "\<exists>d' g'. handle_keys_seq math_at_zero no_hit open_field (replicate 7500 no_key) [] fresh_drone
             = Inr (d', g')
           \<and> time_in_air d' = - (419865 / 2 ^ 56) \<and> time_in_air d' < 0
           \<and> ticked (time_in_air d') = 0"
proof -
  have p: "get_at open_field (py_int (x_position fresh_drone), py_int (y_position fresh_drone))
             = Inr white"
    by (simp add: fresh_drone_def init_def get_at_def open_field_def)
  have t: "time_in_air fresh_drone = 300"
    by (simp add: fresh_drone_def init_def MAX_FLIGHT_TIME_def)
  from handle_keys_seq_idle[OF p, of math_at_zero no_hit 7500 "[]"] obtain d' g'
    where s: "handle_keys_seq math_at_zero no_hit open_field (replicate 7500 no_key) [] fresh_drone
                = Inr (d', g')"
      and v: "time_in_air d' = (ticked ^^ 7500) (time_in_air fresh_drone)"
    by blast
  have v': "time_in_air d' = - (419865 / 72057594037927936)"
    unfolding v t by (rule countdown_0_7500)
  have "time_in_air d' = - (419865 / 2 ^ 56)" "time_in_air d' < 0" "ticked (time_in_air d') = 0"
    unfolding v' by (simp_all add: countdown_7500_7501)
  with s show ?thesis by blast
qed

end
